theory Spec2Isabelle
  imports Main "HOL-Library.Sublist" "HOL-Library.AList" "HOL-Library.Word"
begin

unbundle bit_operations_syntax

section \<open>Path filter (package config: Manager, NewManager, shouldInclude)\<close>

text \<open>
  The manager keeps its include and exclude rules as compiled matchers. A compiled
  matcher is a value of the interface \<^verbatim>\<open>glob.Glob\<close>, whose only method is
  \<^verbatim>\<open>Match(string) bool\<close>; it is modelled by that method. Statements about
  arbitrary rule sets therefore range over arbitrary matchers and do not depend on
  any pattern syntax.

  Of the fields of \<^verbatim>\<open>Manager\<close>, \<^verbatim>\<open>SyncInterval\<close> is a duration in nanoseconds and
  \<^verbatim>\<open>NotifyManager\<close> says whether the pointer is set. The pointers \<^verbatim>\<open>GitRepo\<close> and
  \<^verbatim>\<open>FileWatcher\<close> lead to the version control backend and to the watcher, which
  are modelled further down as a parameter and as the state of the watcher loop.
\<close>

type_synonym Glob = "string \<Rightarrow> bool"

record Manager =
  ConfigDir :: string
  RepoDir :: string
  IncludeGlobs :: "Glob list"
  ExcludeGlobs :: "Glob list"
  SyncInterval :: int
  Verbose :: bool
  NotifyManager :: bool

text \<open>\<^verbatim>\<open>strings.Contains(s, substr)\<close>: \<^verbatim>\<open>substr\<close> occurs in \<^verbatim>\<open>s\<close> as a contiguous run.\<close>

definition strings_Contains :: "string \<Rightarrow> string \<Rightarrow> bool" where
  "strings_Contains s substr = sublist substr s"

text \<open>
  \<^verbatim>\<open>NewManager\<close> compiles every non-empty pattern and silently drops the ones the
  compiler rejects. The compiler, \<^verbatim>\<open>glob.Compile\<close>, belongs to an imported library
  whose source is not among the sources of the repository; it is a parameter here,
  and \<open>None\<close> is a compile error. Which paths a compiled pattern matches is therefore
  left open.
\<close>

definition compilePatterns :: "(string \<Rightarrow> Glob option) \<Rightarrow> string list \<Rightarrow> Glob list" where
  "compilePatterns compile patterns =
     List.map_filter (\<lambda>pattern. if pattern \<noteq> [] then compile pattern else None) patterns"

definition NewManager ::
  "(string \<Rightarrow> Glob option) \<Rightarrow> string \<Rightarrow> string \<Rightarrow> string list \<Rightarrow> string list \<Rightarrow> int \<Rightarrow> bool \<Rightarrow> bool
     \<Rightarrow> Manager" where
  "NewManager compile configDir repoDir includePatterns excludePatterns syncInterval verbose notifyManager =
     \<lparr> ConfigDir = configDir,
       RepoDir = repoDir,
       IncludeGlobs = compilePatterns compile includePatterns,
       ExcludeGlobs = compilePatterns compile excludePatterns,
       SyncInterval = syncInterval,
       Verbose = verbose,
       NotifyManager = notifyManager \<rparr>"

text \<open>
  The two loops of \<^verbatim>\<open>shouldInclude\<close>: the first returns as soon as a matcher of
  the list matches.
\<close>

fun anyMatch :: "Glob list \<Rightarrow> string \<Rightarrow> bool" where
  "anyMatch [] relPath = False"
| "anyMatch (pattern # rest) relPath = (if pattern relPath then True else anyMatch rest relPath)"

text \<open>
  \<^verbatim>\<open>shouldInclude\<close>, branch by branch. The line it prints in verbose mode when an
  exclude rule matches is console output only and is not part of the result.
\<close>

definition shouldInclude :: "Manager \<Rightarrow> string \<Rightarrow> bool" where
  "shouldInclude m relPath =
     (if strings_Contains relPath ''.git'' then False
      else if anyMatch (ExcludeGlobs m) relPath then False
      else if length (IncludeGlobs m) > 0 then
        (if anyMatch (IncludeGlobs m) relPath then True else False)
      else True)"

subsection \<open>Paths as strings\<close>

text \<open>A path given as a string, split at every \<^verbatim>\<open>/\<close>.\<close>

fun pathSegments :: "string \<Rightarrow> string list" where
  "pathSegments [] = [[]]"
| "pathSegments (c # cs) =
     (if c = CHR ''/'' then [] # pathSegments cs
      else (case pathSegments cs of
              seg # segs \<Rightarrow> (c # seg) # segs
            | [] \<Rightarrow> [[c]]))"

text \<open>
  The specification speaks of a path "containing a VCS metadata segment". The
  following definition follows those words (a segment is one of the pieces between
  the slashes) and is used only to compare them with the test that
  \<^verbatim>\<open>shouldInclude\<close> performs.
\<close>

definition spec_hasMetadataSegment :: "string \<Rightarrow> bool" where
  "spec_hasMetadataSegment relPath = (''.git'' \<in> set (pathSegments relPath))"

section \<open>The operating system boundary: errors and the file system\<close>

text \<open>
  Go errors are values. An error of a system call is its errno; \<^verbatim>\<open>fmt.Errorf("msg: %w", err)\<close>
  wraps an error under a message; \<^verbatim>\<open>errors.New(msg)\<close> is a bare message.
  \<^verbatim>\<open>os.IsNotExist\<close> recognises the errno \<^verbatim>\<open>ENOENT\<close> only.
\<close>

datatype errno = ENOENT | ENOTDIR | EEXIST | EISDIR | ENOTEMPTY | EBUSY

datatype error = Errno errno | Msg string | Wrapped string error

definition os_IsNotExist :: "errno + 'a \<Rightarrow> bool" where
  "os_IsNotExist r = (r = Inl ENOENT)"

text \<open>
  A file system is a tree. A regular file has permission bits and a content; a
  directory has permission bits and a listing, whose order stands for the order in
  which the directory is read. A path is the list of its segments from the root of the
  tree. Permission bits are kept as data; access checks are not part of the model, so
  an operation fails only for the structural reasons below. Symbolic links are not
  modelled.
\<close>

type_synonym FileMode = "32 word"

datatype node =
    File (mode: FileMode) (bytes: string)
  | Dir (mode: FileMode) (entries: "(string \<times> node) list")

type_synonym path = "string list"

fun IsDir :: "node \<Rightarrow> bool" where
  "IsDir (Dir m es) = True"
| "IsDir (File m c) = False"

text \<open>\<^verbatim>\<open>os.Stat\<close>: the entry a path leads to (its \<^verbatim>\<open>FileInfo\<close>).\<close>

fun os_Stat :: "node \<Rightarrow> path \<Rightarrow> errno + node" where
  "os_Stat n [] = Inr n"
| "os_Stat (File m c) (name # rest) = Inl ENOTDIR"
| "os_Stat (Dir m es) (name # rest) =
     (case map_of es name of None \<Rightarrow> Inl ENOENT | Some child \<Rightarrow> os_Stat child rest)"

text \<open>
  Every system call that changes one entry walks to the entry and replaces it: the
  function \<open>f\<close> receives what is there (\<open>None\<close> when nothing is) and answers with what
  shall be there, or with an errno.
\<close>

fun modifyEntry ::
  "path \<Rightarrow> (node option \<Rightarrow> errno + node option) \<Rightarrow> node option \<Rightarrow> errno + node option" where
  "modifyEntry [] f x = f x"
| "modifyEntry (name # rest) f None = Inl ENOENT"
| "modifyEntry (name # rest) f (Some (File m c)) = Inl ENOTDIR"
| "modifyEntry (name # rest) f (Some (Dir m es)) =
     (case modifyEntry rest f (map_of es name) of
        Inl e \<Rightarrow> Inl e
      | Inr None \<Rightarrow> Inr (Some (Dir m (AList.delete name es)))
      | Inr (Some child) \<Rightarrow> Inr (Some (Dir m (AList.update name child es))))"

definition modifyAt :: "path \<Rightarrow> (node option \<Rightarrow> errno + node option) \<Rightarrow> node \<Rightarrow> errno + node" where
  "modifyAt p f root =
     (case modifyEntry p f (Some root) of
        Inl e \<Rightarrow> Inl e
      | Inr None \<Rightarrow> Inl EBUSY
      | Inr (Some root') \<Rightarrow> Inr root')"

text \<open>
  Two readings used in the proofs: the result of \<^verbatim>\<open>os.Stat\<close> below an entry that
  may be missing, and a result seen as "the entry, if there is one".
\<close>

definition statOpt :: "node option \<Rightarrow> path \<Rightarrow> errno + node" where
  "statOpt x p = (case x of None \<Rightarrow> Inl ENOENT | Some n \<Rightarrow> os_Stat n p)"

fun resultOpt :: "errno + node \<Rightarrow> node option" where
  "resultOpt (Inl e) = None"
| "resultOpt (Inr n) = Some n"

text \<open>\<^verbatim>\<open>os.Mkdir(name, perm)\<close>: the new directory gets \<^verbatim>\<open>perm\<close> less the umask.\<close>

definition os_Mkdir :: "FileMode \<Rightarrow> node \<Rightarrow> path \<Rightarrow> FileMode \<Rightarrow> errno + node" where
  "os_Mkdir um root p perm =
     modifyAt p (\<lambda>x. case x of
                       None \<Rightarrow> Inr (Some (Dir (perm AND NOT um) []))
                     | Some n \<Rightarrow> Inl EEXIST) root"

text \<open>
  \<^verbatim>\<open>os.MkdirAll(path, perm)\<close>, as the standard library writes it: a path that is
  there is a success when it is a directory and \<^verbatim>\<open>ENOTDIR\<close> otherwise; else the
  parent is made first and then the directory itself.
\<close>

function os_MkdirAll :: "FileMode \<Rightarrow> node \<Rightarrow> path \<Rightarrow> FileMode \<Rightarrow> errno + node" where
  "os_MkdirAll um root p perm =
     (case os_Stat root p of
        Inr n \<Rightarrow> (if IsDir n then Inr root else Inl ENOTDIR)
      | Inl e0 \<Rightarrow>
          (if p = [] then Inl e0
           else (case os_MkdirAll um root (butlast p) perm of
                   Inl e \<Rightarrow> Inl e
                 | Inr root1 \<Rightarrow>
                     (case os_Mkdir um root1 p perm of
                        Inr root2 \<Rightarrow> Inr root2
                      | Inl e \<Rightarrow>
                          (case os_Stat root1 p of
                             Inr n \<Rightarrow> (if IsDir n then Inr root1 else Inl e)
                           | Inl e1 \<Rightarrow> Inl e)))))"
  by pat_completeness auto
termination
  by (relation "measure (\<lambda>(um, root, p, perm). length p)") auto

declare os_MkdirAll.simps [simp del]

text \<open>\<^verbatim>\<open>os.ReadFile(name)\<close>.\<close>

definition os_ReadFile :: "node \<Rightarrow> path \<Rightarrow> errno + string" where
  "os_ReadFile root p =
     (case os_Stat root p of
        Inl e \<Rightarrow> Inl e
      | Inr (Dir m es) \<Rightarrow> Inl EISDIR
      | Inr (File m c) \<Rightarrow> Inr c)"

text \<open>
  \<^verbatim>\<open>os.WriteFile(name, data, perm)\<close> opens the file with
  \<^verbatim>\<open>O_WRONLY|O_CREATE|O_TRUNC\<close>: a file that is not there is created with
  \<^verbatim>\<open>perm\<close> less the umask; a file that is there is truncated and rewritten, and its
  permission bits stay as they are.
\<close>

definition os_WriteFile :: "FileMode \<Rightarrow> node \<Rightarrow> path \<Rightarrow> string \<Rightarrow> FileMode \<Rightarrow> errno + node" where
  "os_WriteFile um root p data perm =
     modifyAt p (\<lambda>x. case x of
                       None \<Rightarrow> Inr (Some (File (perm AND NOT um) data))
                     | Some (File m c) \<Rightarrow> Inr (Some (File m data))
                     | Some (Dir m es) \<Rightarrow> Inl EISDIR) root"

text \<open>\<^verbatim>\<open>os.Chmod(name, mode)\<close> sets the permission bits; the umask plays no part.\<close>

definition os_Chmod :: "node \<Rightarrow> path \<Rightarrow> FileMode \<Rightarrow> errno + node" where
  "os_Chmod root p perm =
     modifyAt p (\<lambda>x. case x of
                       None \<Rightarrow> Inl ENOENT
                     | Some (File m c) \<Rightarrow> Inr (Some (File perm c))
                     | Some (Dir m es) \<Rightarrow> Inr (Some (Dir perm es))) root"

text \<open>\<^verbatim>\<open>os.Remove(name)\<close> removes a file or an empty directory.\<close>

definition os_Remove :: "node \<Rightarrow> path \<Rightarrow> errno + node" where
  "os_Remove root p =
     modifyAt p (\<lambda>x. case x of
                       None \<Rightarrow> Inl ENOENT
                     | Some (File m c) \<Rightarrow> Inr None
                     | Some (Dir m es) \<Rightarrow> (if es = [] then Inr None else Inl ENOTEMPTY)) root"

text \<open>
  Paths reach the program as strings. \<^verbatim>\<open>filepath.Join\<close> joins its arguments with
  \<^verbatim>\<open>/\<close> and cleans the result: empty segments and \<^verbatim>\<open>.\<close> disappear, and \<^verbatim>\<open>..\<close>
  steps back over the segment before it. Every path is read from the root of the tree.
\<close>

fun cleanSegments :: "string list \<Rightarrow> path \<Rightarrow> path" where
  "cleanSegments [] acc = rev acc"
| "cleanSegments (seg # segs) acc =
     (if seg = [] \<or> seg = ''.'' then cleanSegments segs acc
      else if seg = ''..'' then cleanSegments segs (tl acc)
      else cleanSegments segs (seg # acc))"

definition filepath_Join :: "string \<Rightarrow> string \<Rightarrow> path" where
  "filepath_Join a b = cleanSegments (pathSegments a @ pathSegments b) []"

section \<open>The world a run acts on\<close>

text \<open>
  Package \<^verbatim>\<open>ui\<close> prints decorated lines; the model keeps which function printed
  and with which arguments. \<^verbatim>\<open>err.Error()\<close> is the text of an error (for a system
  call the operation and the path that the standard library puts in front are left
  out).
\<close>

datatype out =
    Info string
  | Success string
  | Warning string
  | Error string
  | FileOperation string string
  | Section string
  | Separator
  | Notification string string

fun errno_text :: "errno \<Rightarrow> string" where
  "errno_text ENOENT = ''no such file or directory''"
| "errno_text ENOTDIR = ''not a directory''"
| "errno_text EEXIST = ''file exists''"
| "errno_text EISDIR = ''is a directory''"
| "errno_text ENOTEMPTY = ''directory not empty''"
| "errno_text EBUSY = ''device or resource busy''"

fun Error_text :: "error \<Rightarrow> string" where
  "Error_text (Errno e) = errno_text e"
| "Error_text (Msg s) = s"
| "Error_text (Wrapped s e) = s @ '': '' @ Error_text e"

text \<open>
  The world holds the file system, the umask of the process, what has been printed,
  and the state \<open>'g\<close> that the version control backend keeps for itself (index, object
  store, remote). The backend is the library \<^verbatim>\<open>go-git\<close>, the \<^verbatim>\<open>git\<close> program run
  through a shell, and the cycle \<^verbatim>\<open>SyncWithRemote\<close> that pulls, commits and pushes;
  they are parameters, so every statement below holds whatever they do.
  \<^item> \<open>Worktree\<close>: the error of \<^verbatim>\<open>Repository.Worktree()\<close>, if any;
  \<^item> \<open>worktree_Add\<close>: \<^verbatim>\<open>w.Add(path)\<close>, which reads the working tree and changes the index;
  \<^item> \<open>runCommand\<close>: a child process (\<^verbatim>\<open>exec.Command(...).CombinedOutput()\<close>), which
    may change files and the backend's state, and returns its output and its error;
  \<^item> \<open>SyncWithRemote\<close>: one sync cycle with the given commit message;
  \<^item> \<open>TempDir\<close>: \<^verbatim>\<open>os.TempDir()\<close>.
\<close>

record 'g world =
  fs :: node
  umask :: FileMode
  console :: "out list"
  git :: 'g

record 'g backend =
  Worktree :: "'g \<Rightarrow> error option"
  worktree_Add :: "string \<Rightarrow> node \<Rightarrow> 'g \<Rightarrow> error option \<times> 'g"
  runCommand :: "string \<Rightarrow> string list \<Rightarrow> node \<Rightarrow> 'g \<Rightarrow> (string \<times> error option) \<times> node \<times> 'g"
  SyncWithRemote :: "string \<Rightarrow> 'g world \<Rightarrow> error option \<times> 'g world"
  TempDir :: string

definition print :: "out \<Rightarrow> 'g world \<Rightarrow> 'g world" where
  "print line w = w\<lparr>console := console w @ [line]\<rparr>"

section \<open>Conflict resolution (package git)\<close>

text \<open>
  The structs \<^verbatim>\<open>GitRepo\<close>, \<^verbatim>\<open>ConflictFile\<close> and \<^verbatim>\<open>ConflictResolver\<close>. The fields
  \<^verbatim>\<open>Repository\<close> and \<^verbatim>\<open>Auth\<close> of \<^verbatim>\<open>GitRepo\<close> are handles of the version-control
  library; what is done through them is in the backend. Both \<^verbatim>\<open>GitRepo\<close> and
  \<^verbatim>\<open>ConflictFile\<close> have a field \<^verbatim>\<open>Path\<close>; the one of \<^verbatim>\<open>ConflictFile\<close> is
  \<open>ConflictPath\<close> here. The three strategies are the string constants of the source.
\<close>

record GitRepo =
  Path :: string
  RemoteURL :: string

type_synonym ResolutionStrategy = string

definition KeepLocal :: ResolutionStrategy where "KeepLocal = ''local''"
definition KeepRemote :: ResolutionStrategy where "KeepRemote = ''remote''"
definition Merge :: ResolutionStrategy where "Merge = ''merge''"

record ConflictFile =
  ConflictPath :: string
  LocalSHA :: string
  RemoteSHA :: string

record ConflictResolver =
  Repo :: GitRepo
  Conflicts :: "ConflictFile list"

text \<open>\<^verbatim>\<open>strings.Join(elems, sep)\<close>.\<close>

fun strings_Join :: "string list \<Rightarrow> string \<Rightarrow> string" where
  "strings_Join [] sep = []"
| "strings_Join [x] sep = x"
| "strings_Join (x # y # rest) sep = x @ sep @ strings_Join (y # rest) sep"

text \<open>
  \<^verbatim>\<open>ui.ExecuteCommand\<close>: announces the command, runs it, and reports a failure.
\<close>

definition ExecuteCommand ::
  "'g backend \<Rightarrow> string \<Rightarrow> string list \<Rightarrow> 'g world \<Rightarrow> (string \<times> error option) \<times> 'g world" where
  "ExecuteCommand be command args w =
     (let w1 = print (Info (''Executing: '' @ command @ '' '' @ strings_Join args '' '')) w in
      case runCommand be command args (fs w1) (git w1) of
        ((output, Some err), fs2, g2) \<Rightarrow>
          ((output, Some err),
           print (Error (''Command failed: '' @ Error_text err)) (w1\<lparr>fs := fs2, git := g2\<rparr>))
      | ((output, None), fs2, g2) \<Rightarrow> ((output, None), w1\<lparr>fs := fs2, git := g2\<rparr>))"

text \<open>
  \<^verbatim>\<open>GitRepo.execGitCheckout\<close>: writes a one-line shell script into the temporary
  directory, runs it, and removes it when the run succeeded (the result of that
  \<^verbatim>\<open>os.Remove\<close> is ignored).
\<close>

definition execGitCheckout ::
  "'g backend \<Rightarrow> GitRepo \<Rightarrow> string \<Rightarrow> string \<Rightarrow> 'g world \<Rightarrow> error option \<times> 'g world" where
  "execGitCheckout be g path option w =
     (let scriptContent = ''cd '' @ Path g @ '' && git checkout '' @ option @ '' -- '' @ path;
          tempFile = filepath_Join (TempDir be) ''git_checkout.sh'' in
      case os_WriteFile (umask w) (fs w) tempFile scriptContent 448 of
        Inl e \<Rightarrow> (Some (Wrapped ''failed to create checkout script'' (Errno e)), w)
      | Inr fs1 \<Rightarrow>
          (case ExecuteCommand be ''/bin/sh'' [''/'' @ strings_Join tempFile ''/''] (w\<lparr>fs := fs1\<rparr>) of
             ((output, Some err), w2) \<Rightarrow>
               (Some (Wrapped (''checkout failed: '' @ output) err), w2)
           | ((output, None), w2) \<Rightarrow>
               (None, (case os_Remove (fs w2) tempFile of
                         Inl e \<Rightarrow> w2
                       | Inr fs3 \<Rightarrow> w2\<lparr>fs := fs3\<rparr>))))"

text \<open>The marker that the merge strategy puts in front of the conflicted content.\<close>

definition mergeHeader :: string where
  "mergeHeader =
     ''# MERGED FILE'' @ [CHR 0x0A] @ ''# Contains both versions due to conflict'' @ [CHR 0x0A, CHR 0x0A]"

text \<open>
  \<^verbatim>\<open>w.Add(path)\<close> followed by the common ending of the three strategies.
\<close>

definition markResolved :: "'g backend \<Rightarrow> string \<Rightarrow> 'g world \<Rightarrow> error option \<times> 'g world" where
  "markResolved be path w =
     (case worktree_Add be path (fs w) (git w) of
        (Some err, g) \<Rightarrow> (Some (Wrapped ''failed to mark as resolved'' err), w\<lparr>git := g\<rparr>)
      | (None, g) \<Rightarrow> (None, w\<lparr>git := g\<rparr>))"

text \<open>
  \<^verbatim>\<open>ConflictResolver.ResolveConflict\<close>. The strategy is a string in the source; the
  \<^verbatim>\<open>switch\<close> has no default, so any other string does nothing and succeeds. Mode
  \<^verbatim>\<open>0644\<close> is 420.
\<close>

definition ResolveConflict ::
  "'g backend \<Rightarrow> ConflictResolver \<Rightarrow> string \<Rightarrow> ResolutionStrategy \<Rightarrow> 'g world \<Rightarrow> error option \<times> 'g world" where
  "ResolveConflict be cr path strategy w =
     (case Worktree be (git w) of
        Some err \<Rightarrow> (Some (Wrapped ''failed to get worktree'' err), w)
      | None \<Rightarrow>
          (let fullPath = filepath_Join (Path (Repo cr)) path in
           if strategy = KeepLocal then
             (case execGitCheckout be (Repo cr) path ''--ours''
                     (print (Info (''Keeping local version of '' @ path)) w) of
                (Some err, w1) \<Rightarrow> (Some (Wrapped ''failed to checkout local version'' err), w1)
              | (None, w1) \<Rightarrow> markResolved be path w1)
           else if strategy = KeepRemote then
             (case execGitCheckout be (Repo cr) path ''--theirs''
                     (print (Info (''Keeping remote version of '' @ path)) w) of
                (Some err, w1) \<Rightarrow> (Some (Wrapped ''failed to checkout remote version'' err), w1)
              | (None, w1) \<Rightarrow> markResolved be path w1)
           else if strategy = Merge then
             (let w1 = print (Info (''Creating merged version of '' @ path)) w in
              case os_ReadFile (fs w1) fullPath of
                Inl e \<Rightarrow> (Some (Wrapped ''failed to read conflict file'' (Errno e)), w1)
              | Inr content \<Rightarrow>
                  (let mergedContent = mergeHeader @ content in
                   case os_WriteFile (umask w1) (fs w1) fullPath mergedContent 420 of
                     Inl e \<Rightarrow> (Some (Wrapped ''failed to write merged file'' (Errno e)), w1)
                   | Inr fs1 \<Rightarrow> markResolved be path (w1\<lparr>fs := fs1\<rparr>)))
           else (None, w)))"

text \<open>
  \<^verbatim>\<open>ConflictResolver.ResolveAllConflicts\<close>: the loop over \<^verbatim>\<open>cr.Conflicts\<close>, which
  returns from inside the loop at the first error.
\<close>

fun resolveEach ::
  "'g backend \<Rightarrow> ConflictResolver \<Rightarrow> ConflictFile list \<Rightarrow> ResolutionStrategy \<Rightarrow> 'g world
     \<Rightarrow> error option \<times> 'g world" where
  "resolveEach be cr [] strategy w = (None, w)"
| "resolveEach be cr (conflict # rest) strategy w =
     (case ResolveConflict be cr (ConflictPath conflict) strategy w of
        (Some err, w1) \<Rightarrow>
          (Some (Wrapped (''failed to resolve conflict for '' @ ConflictPath conflict) err), w1)
      | (None, w1) \<Rightarrow> resolveEach be cr rest strategy w1)"

definition ResolveAllConflicts ::
  "'g backend \<Rightarrow> ConflictResolver \<Rightarrow> ResolutionStrategy \<Rightarrow> 'g world \<Rightarrow> error option \<times> 'g world" where
  "ResolveAllConflicts be cr strategy w = resolveEach be cr (Conflicts cr) strategy w"

section \<open>Commit messages (package config: buildCommitMessage)\<close>

text \<open>
  \<^verbatim>\<open>strings.TrimSuffix\<close>, \<^verbatim>\<open>strings.Split\<close> (for a separator that is not empty it
  cuts at the leftmost occurrences, one after the other; for the empty separator it
  gives the characters one by one) and \<^verbatim>\<open>fmt.Sprintf("%d", n)\<close> for a number that
  is not negative.
\<close>

definition strings_TrimSuffix :: "string \<Rightarrow> string \<Rightarrow> string" where
  "strings_TrimSuffix s suf = (if suffix suf s then take (length s - length suf) s else s)"

function strings_Split :: "string \<Rightarrow> string \<Rightarrow> string list" where
  "strings_Split s sep =
     (if sep = [] then map (\<lambda>c. [c]) s
      else if s = [] then [[]]
      else if prefix sep s then [] # strings_Split (drop (length sep) s) sep
      else (case strings_Split (tl s) sep of
              piece # pieces \<Rightarrow> (hd s # piece) # pieces
            | [] \<Rightarrow> [[hd s]]))"
  by pat_completeness auto
termination
  by (relation "measure (\<lambda>(s, sep). length s)") auto

declare strings_Split.simps [simp del]

definition digitChar :: "nat \<Rightarrow> char" where
  "digitChar d = ''0123456789'' ! d"

function decimal :: "nat \<Rightarrow> string" where
  "decimal n = (if n < 10 then [digitChar n] else decimal (n div 10) @ [digitChar (n mod 10)])"
  by pat_completeness auto
termination
  by (relation "measure (\<lambda>n. n)") auto

declare decimal.simps [simp del]

text \<open>
  \<^verbatim>\<open>buildCommitMessage(changes, totalChanges)\<close>. The argument \<^verbatim>\<open>changes\<close> is a Go
  map from the kind of change to the paths of that kind, each followed by a comma and
  a space, in one string. The loop ranges over the map in an order that Go leaves
  open; the association list gives the entries in the order of the iteration.
  \<^verbatim>\<open>totalChanges\<close> is the length of a map and so not negative.
\<close>

fun commitParts :: "(string \<times> string) list \<Rightarrow> string list" where
  "commitParts [] = []"
| "commitParts ((changeType, files) # rest) =
     (if files \<noteq> [] then
        (let trimmed = strings_TrimSuffix files '', '';
             fileList = strings_Split trimmed '', '';
             listed = (if length fileList > 3
                       then strings_Join (take 3 fileList) '', ''
                              @ '' and '' @ decimal (length fileList - 3) @ '' more''
                       else trimmed)
         in (changeType @ '': '' @ listed) # commitParts rest)
      else commitParts rest)"

definition buildCommitMessage :: "(string \<times> string) list \<Rightarrow> nat \<Rightarrow> string" where
  "buildCommitMessage changes totalChanges =
     (let parts = commitParts changes in
      if length parts > 0 then ''Configuration update: '' @ strings_Join parts ''; ''
      else ''Updated configuration files: '' @ decimal totalChanges @ '' files changed'')"

text \<open>
  The commit message as the specification words it, for a change summary given as
  lists of paths by kind: every kind with at least one path lists up to three paths
  and says how many more there are; the kinds are joined by a semicolon and a space;
  with no path at all the message gives the total only. \<open>summaryString\<close> is the string
  that \<^verbatim>\<open>syncChangedFiles\<close> builds for the paths of one kind. These definitions are
  used only to compare the specification with \<^verbatim>\<open>buildCommitMessage\<close>.
\<close>

definition summaryString :: "string list \<Rightarrow> string" where
  "summaryString paths = concat (map (\<lambda>p. p @ '', '') paths)"

definition spec_listed :: "string list \<Rightarrow> string" where
  "spec_listed paths =
     (if length paths > 3
      then strings_Join (take 3 paths) '', '' @ '' and '' @ decimal (length paths - 3) @ '' more''
      else strings_Join paths '', '')"

definition spec_commitMessage :: "(string \<times> string list) list \<Rightarrow> nat \<Rightarrow> string" where
  "spec_commitMessage groups totalChanges =
     (if \<exists>g \<in> set groups. snd g \<noteq> []
      then ''Configuration update: ''
             @ strings_Join (map (\<lambda>g. fst g @ '': '' @ spec_listed (snd g))
                               (filter (\<lambda>g. snd g \<noteq> []) groups)) ''; ''
      else ''Updated configuration files: '' @ decimal totalChanges @ '' files changed'')"

section \<open>Reconciliation (package config: copyFile, removeDirectory, InitialSync, syncChangedFiles)\<close>

text \<open>
  The source tree is the tree below \<^verbatim>\<open>ConfigDir\<close> (\<open>None\<close> when that directory is
  missing); a run reads it and never writes to it. The mirror lives in the file system
  of the world, below \<^verbatim>\<open>RepoDir\<close>. The two directories are taken to be apart,
  neither inside the other, as the defaults \<^verbatim>\<open>~/.config\<close> and
  \<^verbatim>\<open>~/.config_sync_repo\<close> are. A path of the source tree is relative to
  \<^verbatim>\<open>ConfigDir\<close>; \<^verbatim>\<open>filepath.Rel\<close> gives it as the names joined by \<^verbatim>\<open>/\<close>, and
  \<^verbatim>\<open>.\<close> for the root.
\<close>

definition relSegments :: "string \<Rightarrow> path" where
  "relSegments relPath = cleanSegments (pathSegments relPath) []"

definition relPathOf :: "path \<Rightarrow> string" where
  "relPathOf p = (if p = [] then ''.'' else strings_Join p ''/'')"

definition pathText :: "path \<Rightarrow> string" where
  "pathText p = ''/'' @ strings_Join p ''/''"

text \<open>\<^verbatim>\<open>io.Copy\<close> into the file that \<^verbatim>\<open>os.Create\<close> has opened.\<close>

definition io_Copy :: "node \<Rightarrow> path \<Rightarrow> string \<Rightarrow> errno + node" where
  "io_Copy root dst c =
     modifyAt dst (\<lambda>x. case x of
                         None \<Rightarrow> Inl ENOENT
                       | Some (File m old) \<Rightarrow> Inr (Some (File m c))
                       | Some (Dir m es) \<Rightarrow> Inl EISDIR) root"

text \<open>
  \<^verbatim>\<open>copyFile(src, dst)\<close>: \<^verbatim>\<open>os.Open(src)\<close>, \<^verbatim>\<open>os.Create(dst)\<close> (which opens with
  \<^verbatim>\<open>O_RDWR|O_CREATE|O_TRUNC\<close> and mode \<^verbatim>\<open>0666\<close>, 438), \<^verbatim>\<open>io.Copy\<close>,
  \<^verbatim>\<open>os.Stat(src)\<close>, \<^verbatim>\<open>os.Chmod(dst, mode)\<close>. What was done before a step fails stays
  done.
\<close>

definition copyFile :: "node option \<Rightarrow> path \<Rightarrow> path \<Rightarrow> 'g world \<Rightarrow> errno option \<times> 'g world" where
  "copyFile source src dst w =
     (case statOpt source src of
        Inl e \<Rightarrow> (Some e, w)
      | Inr sourceFile \<Rightarrow>
          (case os_WriteFile (umask w) (fs w) dst [] 438 of
             Inl e \<Rightarrow> (Some e, w)
           | Inr fs1 \<Rightarrow>
               (case sourceFile of
                  Dir m es \<Rightarrow> (Some EISDIR, w\<lparr>fs := fs1\<rparr>)
                | File m c \<Rightarrow>
                    (case io_Copy fs1 dst c of
                       Inl e \<Rightarrow> (Some e, w\<lparr>fs := fs1\<rparr>)
                     | Inr fs2 \<Rightarrow>
                         (case statOpt source src of
                            Inl e \<Rightarrow> (Some e, w\<lparr>fs := fs2\<rparr>)
                          | Inr sourceInfo \<Rightarrow>
                              (case os_Chmod fs2 dst (mode sourceInfo) of
                                 Inl e \<Rightarrow> (Some e, w\<lparr>fs := fs2\<rparr>)
                               | Inr fs3 \<Rightarrow> (None, w\<lparr>fs := fs3\<rparr>)))))))"

text \<open>
  \<^verbatim>\<open>removeDirectory(path)\<close>: reads the directory, removes every entry (a directory
  by a recursive call, anything else by \<^verbatim>\<open>os.Remove\<close>), returns at the first error,
  and removes the directory itself at the end. The recursion follows the tree that
  \<^verbatim>\<open>os.ReadDir\<close> finds at the path.
\<close>

fun removeTree :: "path \<Rightarrow> node \<Rightarrow> node \<Rightarrow> errno option \<times> node"
  and removeEntries :: "path \<Rightarrow> (string \<times> node) list \<Rightarrow> node \<Rightarrow> errno option \<times> node" where
  "removeTree p (File m c) root = (Some ENOTDIR, root)"
| "removeTree p (Dir m es) root =
     (case removeEntries p es root of
        (Some e, root1) \<Rightarrow> (Some e, root1)
      | (None, root1) \<Rightarrow>
          (case os_Remove root1 p of
             Inl e \<Rightarrow> (Some e, root1)
           | Inr root2 \<Rightarrow> (None, root2)))"
| "removeEntries p [] root = (None, root)"
| "removeEntries p ((name, entry) # rest) root =
     (case (if IsDir entry then removeTree (p @ [name]) entry root
            else (case os_Remove root (p @ [name]) of
                    Inl e \<Rightarrow> (Some e, root)
                  | Inr root1 \<Rightarrow> (None, root1))) of
        (Some e, root1) \<Rightarrow> (Some e, root1)
      | (None, root1) \<Rightarrow> removeEntries p rest root1)"

definition removeDirectory :: "node \<Rightarrow> path \<Rightarrow> errno option \<times> node" where
  "removeDirectory root p =
     (case os_Stat root p of
        Inl e \<Rightarrow> (Some e, root)
      | Inr n \<Rightarrow> removeTree p n root)"

text \<open>
  \<^verbatim>\<open>filepath.Walk(root, fn)\<close> visits the root and then every entry below it, a
  directory before its entries. The callback answers \<^verbatim>\<open>nil\<close> (go on),
  \<^verbatim>\<open>filepath.SkipDir\<close> or an error. \<^verbatim>\<open>SkipDir\<close> on a directory skips its entries;
  on a file it skips the rest of the directory the file is in. An error ends the walk.
  When the root cannot be read, the callback is called once with that error; the
  callbacks of this program return it at once.
\<close>

datatype 's walkResult = Continue 's | SkipDir 's | Failed error 's

fun walk :: "(path \<Rightarrow> node \<Rightarrow> 's \<Rightarrow> 's walkResult) \<Rightarrow> path \<Rightarrow> node \<Rightarrow> 's \<Rightarrow> 's walkResult"
  and walkNames ::
    "(path \<Rightarrow> node \<Rightarrow> 's \<Rightarrow> 's walkResult) \<Rightarrow> path \<Rightarrow> (string \<times> node) list \<Rightarrow> 's \<Rightarrow> 's walkResult" where
  "walk walkFn p (File m c) s = walkFn p (File m c) s"
| "walk walkFn p (Dir m es) s =
     (case walkFn p (Dir m es) s of
        Continue s1 \<Rightarrow> walkNames walkFn p es s1
      | SkipDir s1 \<Rightarrow> SkipDir s1
      | Failed e s1 \<Rightarrow> Failed e s1)"
| "walkNames walkFn p [] s = Continue s"
| "walkNames walkFn p ((name, entry) # rest) s =
     (case walk walkFn (p @ [name]) entry s of
        Continue s1 \<Rightarrow> walkNames walkFn p rest s1
      | SkipDir s1 \<Rightarrow> (if IsDir entry then walkNames walkFn p rest s1 else SkipDir s1)
      | Failed e s1 \<Rightarrow> Failed e s1)"

definition filepath_Walk ::
  "node option \<Rightarrow> (path \<Rightarrow> node \<Rightarrow> 's \<Rightarrow> 's walkResult) \<Rightarrow> 's \<Rightarrow> error option \<times> 's" where
  "filepath_Walk source walkFn s =
     (case source of
        None \<Rightarrow> (Some (Errno ENOENT), s)
      | Some root \<Rightarrow>
          (case walk walkFn [] root s of
             Continue s1 \<Rightarrow> (None, s1)
           | SkipDir s1 \<Rightarrow> (None, s1)
           | Failed e s1 \<Rightarrow> (Some e, s1)))"

text \<open>
  The callback of \<^verbatim>\<open>InitialSync\<close>. Its state is the two counters and the world.
  A directory is created, counted and reported only when \<^verbatim>\<open>os.Stat\<close> says that the
  target does not exist; a file is copied, counted and reported every time. Mode
  \<^verbatim>\<open>0755\<close> is 493. The counters are Go \<^verbatim>\<open>int\<close>s that count entries of a tree and
  are taken as natural numbers.
\<close>

record syncCount =
  fileCount :: nat
  dirCount :: nat

definition initialSyncEntry ::
  "Manager \<Rightarrow> node option \<Rightarrow> path \<Rightarrow> node \<Rightarrow> syncCount \<times> 'g world \<Rightarrow> (syncCount \<times> 'g world) walkResult" where
  "initialSyncEntry m source p info s =
     (let relPath = relPathOf p; cnt = fst s; w = snd s in
      if relPath = ''.'' then Continue s
      else if \<not> shouldInclude m relPath then (if IsDir info then SkipDir s else Continue s)
      else
        (let targetPath = filepath_Join (RepoDir m) relPath in
         if IsDir info then
           (if os_IsNotExist (os_Stat (fs w) targetPath) then
              (case os_MkdirAll (umask w) (fs w) targetPath (mode info) of
                 Inl e \<Rightarrow>
                   Failed (Wrapped (''failed to create directory '' @ pathText targetPath) (Errno e)) s
               | Inr fs1 \<Rightarrow>
                   (let cnt1 = cnt\<lparr>dirCount := dirCount cnt + 1\<rparr>;
                        w1 = w\<lparr>fs := fs1\<rparr> in
                    Continue (cnt1,
                      if dirCount cnt1 \<le> 5 \<or> Verbose m
                      then print (FileOperation ''added'' (''dir: '' @ relPath)) w1
                      else w1)))
            else Continue s)
         else
           (case os_MkdirAll (umask w) (fs w) (butlast targetPath) 493 of
              Inl e \<Rightarrow>
                Failed (Wrapped (''failed to create directory '' @ pathText (butlast targetPath))
                          (Errno e)) s
            | Inr fs1 \<Rightarrow>
                (case copyFile source p targetPath (w\<lparr>fs := fs1\<rparr>) of
                   (Some e, w2) \<Rightarrow>
                     Failed (Wrapped (''failed to copy file '' @ pathText (relSegments (ConfigDir m) @ p)
                                        @ '' to '' @ pathText targetPath)
                               (Errno e)) (cnt, w2)
                 | (None, w2) \<Rightarrow>
                     (let cnt1 = cnt\<lparr>fileCount := fileCount cnt + 1\<rparr> in
                      Continue (cnt1,
                        if fileCount cnt1 \<le> 10 \<or> Verbose m
                        then print (FileOperation ''added'' relPath) w2
                        else if fileCount cnt1 = 11 \<and> \<not> Verbose m
                        then print (Info ''... and more files'') w2
                        else w2))))))"

text \<open>
  \<^verbatim>\<open>InitialSync\<close>. The source returns an error only; the model returns the two
  counters as well, which the source prints in its line "Synchronized ... files and
  ... directories", so that statements can speak about them.
\<close>

definition InitialSync ::
  "'g backend \<Rightarrow> Manager \<Rightarrow> node option \<Rightarrow> 'g world \<Rightarrow> error option \<times> syncCount \<times> 'g world" where
  "InitialSync be m source w =
     (case (if os_IsNotExist (os_Stat (fs w) (relSegments (RepoDir m)))
            then os_MkdirAll (umask w) (fs w) (relSegments (RepoDir m)) 493
            else Inr (fs w)) of
        Inl e \<Rightarrow>
          (Some (Wrapped ''failed to create repository directory'' (Errno e)),
           \<lparr>fileCount = 0, dirCount = 0\<rparr>, w)
      | Inr fs0 \<Rightarrow>
          (case filepath_Walk source (initialSyncEntry m source)
                  (\<lparr>fileCount = 0, dirCount = 0\<rparr>, w\<lparr>fs := fs0\<rparr>) of
             (Some e, cnt, w1) \<Rightarrow> (Some (Wrapped ''failed to sync config files'' e), cnt, w1)
           | (None, cnt, w1) \<Rightarrow>
               (let w2 = print (Info (''Synchronized '' @ decimal (fileCount cnt) @ '' files and ''
                                        @ decimal (dirCount cnt) @ '' directories'')) w1;
                    w3 = print (Info ''Committing changes to repository...'') w2 in
                case SyncWithRemote be ''Initial sync of configuration files'' w3 of
                  (Some e, w4) \<Rightarrow> (Some (Wrapped ''failed to sync with remote'' e), cnt, w4)
                | (None, w4) \<Rightarrow> (None, cnt, w4))))"

text \<open>
  The two maps that \<^verbatim>\<open>syncChangedFiles\<close> fills: the paths by kind of change for the
  display, and, for the commit message, one string by kind in which every path is
  followed by a comma and a space. A key that is missing reads as the empty list or
  the empty string.
\<close>

record changeLog =
  fileChanges :: "(string \<times> string list) list"
  fileChangeSummary :: "(string \<times> string) list"

definition changesOf :: "changeLog \<Rightarrow> string \<Rightarrow> string list" where
  "changesOf log kind = (case map_of (fileChanges log) kind of None \<Rightarrow> [] | Some files \<Rightarrow> files)"

definition summaryOf :: "changeLog \<Rightarrow> string \<Rightarrow> string" where
  "summaryOf log kind = (case map_of (fileChangeSummary log) kind of None \<Rightarrow> [] | Some files \<Rightarrow> files)"

definition recordChange :: "string \<Rightarrow> string \<Rightarrow> string \<Rightarrow> changeLog \<Rightarrow> changeLog" where
  "recordChange kind shown relPath log =
     \<lparr> fileChanges = AList.update kind (changesOf log kind @ [shown]) (fileChanges log),
       fileChangeSummary =
         AList.update kind (summaryOf log kind @ relPath @ '', '') (fileChangeSummary log) \<rparr>"

text \<open>\<^verbatim>\<open>filepath.Dir\<close> of a relative path, for a message.\<close>

definition filepath_Dir :: "string \<Rightarrow> string" where
  "filepath_Dir relPath = relPathOf (butlast (relSegments relPath))"

text \<open>
  The body of the loop of \<^verbatim>\<open>syncChangedFiles\<close> for one changed path. An error of
  one path is printed and the loop goes on.
\<close>

definition syncChangedFile ::
  "Manager \<Rightarrow> node option \<Rightarrow> string \<Rightarrow> changeLog \<times> 'g world \<Rightarrow> changeLog \<times> 'g world" where
  "syncChangedFile m source relPath s =
     (let log = fst s; w = snd s;
          sourcePath = relSegments relPath;
          targetPath = filepath_Join (RepoDir m) relPath in
      case statOpt source sourcePath of
        Inl e \<Rightarrow>
          (if e = ENOENT then
             (case os_Stat (fs w) targetPath of
                Inl targetErr \<Rightarrow> s
              | Inr targetInfo \<Rightarrow>
                  (if IsDir targetInfo then
                     (case removeDirectory (fs w) targetPath of
                        (Some err, fs1) \<Rightarrow>
                          (log, print (Error (''Failed to remove directory '' @ relPath @ '': ''
                                               @ errno_text err)) (w\<lparr>fs := fs1\<rparr>))
                      | (None, fs1) \<Rightarrow>
                          (recordChange ''deleted'' (''dir: '' @ relPath) relPath log, w\<lparr>fs := fs1\<rparr>))
                   else
                     (case os_Remove (fs w) targetPath of
                        Inl err \<Rightarrow>
                          (if err \<noteq> ENOENT
                           then (log, print (Error (''Failed to remove file '' @ relPath @ '': ''
                                                     @ errno_text err)) w)
                           else (recordChange ''deleted'' relPath relPath log, w))
                      | Inr fs1 \<Rightarrow> (recordChange ''deleted'' relPath relPath log, w\<lparr>fs := fs1\<rparr>))))
           else s)
      | Inr info \<Rightarrow>
          (if IsDir info then
             (case os_MkdirAll (umask w) (fs w) targetPath (mode info) of
                Inl err \<Rightarrow>
                  (log, print (Error (''Failed to create directory '' @ relPath @ '': ''
                                       @ errno_text err)) w)
              | Inr fs1 \<Rightarrow>
                  (if os_IsNotExist (os_Stat fs1 targetPath)
                   then (recordChange ''added'' (''dir: '' @ relPath) relPath log, w\<lparr>fs := fs1\<rparr>)
                   else (log, w\<lparr>fs := fs1\<rparr>)))
           else
             (case os_MkdirAll (umask w) (fs w) (butlast targetPath) 493 of
                Inl err \<Rightarrow>
                  (log, print (Error (''Failed to create directory '' @ filepath_Dir relPath @ '': ''
                                       @ errno_text err)) w)
              | Inr fs1 \<Rightarrow>
                  (let fileOperation =
                         (if os_IsNotExist (os_Stat fs1 targetPath) then ''added'' else ''modified'') in
                   case copyFile source sourcePath targetPath (w\<lparr>fs := fs1\<rparr>) of
                     (Some err, w2) \<Rightarrow>
                       (log, print (Error (''Failed to copy file '' @ relPath @ '': ''
                                            @ errno_text err)) w2)
                   | (None, w2) \<Rightarrow> (recordChange fileOperation relPath relPath log, w2)))))"

text \<open>
  The display of one kind of change: a title, the first five paths, and one line for
  the rest.
\<close>

definition showChanges :: "string \<Rightarrow> string \<Rightarrow> string list \<Rightarrow> out list" where
  "showChanges kind title files =
     (if length files > 0 then
        Info title # map (FileOperation kind) (take 5 files)
          @ (if length files > 5
             then [Info (''... and '' @ decimal (length files - 5) @ '' more '' @ kind @ '' files'')]
             else [])
      else [])"

definition changeText :: "changeLog \<Rightarrow> string" where
  "changeText log =
     strings_TrimSuffix
       ((if length (changesOf log ''added'') > 0
         then ''Added: '' @ decimal (length (changesOf log ''added'')) @ '' files, '' else [])
        @ (if length (changesOf log ''modified'') > 0
           then ''Modified: '' @ decimal (length (changesOf log ''modified'')) @ '' files, '' else [])
        @ (if length (changesOf log ''deleted'') > 0
           then ''Deleted: '' @ decimal (length (changesOf log ''deleted'')) @ '' files, '' else []))
       '', ''"

definition notify :: "Manager \<Rightarrow> string \<Rightarrow> string \<Rightarrow> 'g world \<Rightarrow> 'g world" where
  "notify m method message w = (if NotifyManager m then print (Notification method message) w else w)"

text \<open>
  \<^verbatim>\<open>syncChangedFiles(changedFiles)\<close>. The argument is a Go map used as a set; the
  list gives its keys in the order of the iteration, which Go leaves open. The source
  returns nothing; the model returns the two maps next to the world.
\<close>

definition syncChangedFiles ::
  "'g backend \<Rightarrow> Manager \<Rightarrow> node option \<Rightarrow> string list \<Rightarrow> 'g world \<Rightarrow> changeLog \<times> 'g world" where
  "syncChangedFiles be m source changedFiles w =
     (let s = fold (syncChangedFile m source) changedFiles
                (\<lparr>fileChanges = [], fileChangeSummary = []\<rparr>, w);
          log = fst s;
          w1 = print (Section ''Changes Detected'') (snd s);
          w2 = fold print (showChanges ''added'' ''Added files:'' (changesOf log ''added'')
                            @ showChanges ''modified'' ''Modified files:'' (changesOf log ''modified'')
                            @ showChanges ''deleted'' ''Deleted files:'' (changesOf log ''deleted'')) w1;
          w3 = notify m ''FileChangesDetected'' (changeText log) w2;
          commitMsg = buildCommitMessage (fileChangeSummary log) (length changedFiles);
          w4 = print (Info ''Syncing changes with remote repository...'') w3 in
      case SyncWithRemote be commitMsg w4 of
        (Some err, w5) \<Rightarrow>
          (log, print Separator
                  (notify m ''SyncError'' (''Failed to sync with remote: '' @ Error_text err)
                     (print (Error (''Failed to sync with remote: '' @ Error_text err)) w5)))
      | (None, w5) \<Rightarrow>
          (log, print Separator
                  (notify m ''SyncSuccess''
                     (''Successfully synchronized '' @ decimal (length changedFiles) @ '' files'')
                     (print (Success (''Successfully synchronized ''
                                        @ decimal (length changedFiles) @ '' changed files'')) w5))))"

section \<open>Change aggregation (package config: watcherLoop)\<close>

text \<open>
  \<^verbatim>\<open>filepath.Rel(basepath, targpath)\<close> fails when one path starts at the root and the
  other does not; otherwise it drops the segments the two cleaned paths share, climbs
  with \<^verbatim>\<open>..\<close> out of what is left of the base, and descends into what is left of the
  target. (Paths that start with \<^verbatim>\<open>..\<close> are outside the model.)
\<close>

definition isSlashed :: "string \<Rightarrow> bool" where
  "isSlashed s = (case s of [] \<Rightarrow> False | c # cs \<Rightarrow> c = CHR ''/'')"

fun stripCommon :: "path \<Rightarrow> path \<Rightarrow> path \<times> path" where
  "stripCommon (a # as) (b # bs) = (if a = b then stripCommon as bs else (a # as, b # bs))"
| "stripCommon as bs = (as, bs)"

definition filepath_Rel :: "string \<Rightarrow> string \<Rightarrow> string option" where
  "filepath_Rel basepath targpath =
     (if isSlashed basepath \<noteq> isSlashed targpath then None
      else (case stripCommon (relSegments basepath) (relSegments targpath) of
              (base, targ) \<Rightarrow> Some (relPathOf (map (\<lambda>seg. ''..'') base @ targ))))"

text \<open>
  The operations of an \<^verbatim>\<open>fsnotify\<close> event are bits of a 32-bit word. The loop
  handles one input at a time: an event, an error of the watcher, a tick of the sync
  ticker, or the closing of one of the two channels, which ends the loop. Each input
  comes with the moment at which it is handled: the reading of \<^verbatim>\<open>time.Now()\<close> in
  nanoseconds and the source tree as it is then.
\<close>

definition fsnotify_Create :: "32 word" where "fsnotify_Create = 1"
definition fsnotify_Write :: "32 word" where "fsnotify_Write = 2"
definition fsnotify_Remove :: "32 word" where "fsnotify_Remove = 4"
definition fsnotify_Rename :: "32 word" where "fsnotify_Rename = 8"
definition fsnotify_Chmod :: "32 word" where "fsnotify_Chmod = 16"

datatype input =
    FsEvent string "32 word"
  | WatcherError string
  | Tick
  | EventsClosed
  | ErrorsClosed

record moment =
  now :: int
  sourceTree :: "node option"

text \<open>
  The state of the loop: the map \<^verbatim>\<open>debounceEvents\<close> from the absolute path of an
  event to the time of its last event, the directories given to the watcher, and the
  world. A Go map holds a key once; the association list is kept that way by
  \<^const>\<open>AList.update\<close> and \<^const>\<open>AList.delete\<close>, and its order stands for an order of
  iteration.
\<close>

record 'g watcher =
  debounceEvents :: "(string \<times> int) list"
  watched :: "string list"
  theWorld :: "'g world"

definition second :: int where "second = 1000000000"

text \<open>The case of the \<^verbatim>\<open>select\<close> for an event.\<close>

definition onEvent :: "Manager \<Rightarrow> moment \<Rightarrow> string \<Rightarrow> 32 word \<Rightarrow> 'g watcher \<Rightarrow> 'g watcher" where
  "onEvent m t name op st =
     (case filepath_Rel (ConfigDir m) name of
        None \<Rightarrow> st
      | Some relPath \<Rightarrow>
          (if \<not> shouldInclude m relPath then st
           else if op AND (fsnotify_Write OR fsnotify_Create OR fsnotify_Remove OR fsnotify_Rename) \<noteq> 0
           then
             (let st1 = st\<lparr>debounceEvents := AList.update name (now t) (debounceEvents st)\<rparr> in
              if op AND fsnotify_Create \<noteq> 0 then
                (case statOpt (sourceTree t) (relSegments relPath) of
                   Inl e \<Rightarrow> st1
                 | Inr info \<Rightarrow>
                     (if IsDir info then
                        st1\<lparr>watched := watched st1 @ [name],
                            theWorld :=
                              (if Verbose m
                               then print (Info (''Added new directory to watch: '' @ relPath)) (theWorld st1)
                               else theWorld st1)\<rparr>
                      else st1))
              else st1)
           else st))"

text \<open>
  The loop of the tick over \<^verbatim>\<open>debounceEvents\<close>: an entry older than one second
  goes into \<^verbatim>\<open>filesToSync\<close> (a Go map used as a set of relative paths) and is deleted
  from \<^verbatim>\<open>debounceEvents\<close>. The first argument after the time is the list of entries
  still to visit; the pair is \<^verbatim>\<open>filesToSync\<close> and \<^verbatim>\<open>debounceEvents\<close>.
\<close>

fun flushPending ::
  "string \<Rightarrow> int \<Rightarrow> (string \<times> int) list \<Rightarrow> string list \<times> (string \<times> int) list
     \<Rightarrow> string list \<times> (string \<times> int) list" where
  "flushPending configDir nowT [] acc = acc"
| "flushPending configDir nowT ((eventPath, eventTime) # rest) (filesToSync, pending) =
     (if nowT - eventTime > 1 * second then
        flushPending configDir nowT rest
          ((case filepath_Rel configDir eventPath of
              None \<Rightarrow> filesToSync
            | Some relPath \<Rightarrow> List.insert relPath filesToSync),
           AList.delete eventPath pending)
      else flushPending configDir nowT rest (filesToSync, pending))"

definition tickBatch :: "Manager \<Rightarrow> int \<Rightarrow> (string \<times> int) list \<Rightarrow> string list \<times> (string \<times> int) list" where
  "tickBatch m nowT pending = flushPending (ConfigDir m) nowT pending ([], pending)"

definition onTick :: "'g backend \<Rightarrow> Manager \<Rightarrow> moment \<Rightarrow> 'g watcher \<Rightarrow> 'g watcher" where
  "onTick be m t st =
     (let filesToSync = fst (tickBatch m (now t) (debounceEvents st));
          st1 = st\<lparr>debounceEvents := snd (tickBatch m (now t) (debounceEvents st))\<rparr> in
      if length filesToSync > 0
      then st1\<lparr>theWorld := snd (syncChangedFiles be m (sourceTree t) filesToSync (theWorld st1))\<rparr>
      else st1)"

text \<open>
  \<^verbatim>\<open>watcherLoop\<close> over the inputs that arrive. The loop starts from an empty map
  and runs until a channel is closed; when the inputs end before that, the state is
  the one in which the loop waits.
\<close>

fun watcherLoop :: "'g backend \<Rightarrow> Manager \<Rightarrow> (moment \<times> input) list \<Rightarrow> 'g watcher \<Rightarrow> 'g watcher" where
  "watcherLoop be m [] st = st"
| "watcherLoop be m ((t, FsEvent name op) # rest) st = watcherLoop be m rest (onEvent m t name op st)"
| "watcherLoop be m ((t, WatcherError msg) # rest) st =
     watcherLoop be m rest (st\<lparr>theWorld := print (Error (''Watcher error: '' @ msg)) (theWorld st)\<rparr>)"
| "watcherLoop be m ((t, Tick) # rest) st = watcherLoop be m rest (onTick be m t st)"
| "watcherLoop be m ((t, EventsClosed) # rest) st = st"
| "watcherLoop be m ((t, ErrorsClosed) # rest) st = st"

text \<open>
  A backend that never fails and touches nothing, a repository at \<^verbatim>\<open>/repo\<close>, and
  small worlds, used where a statement is evaluated on a concrete input. Mode
  \<^verbatim>\<open>0755\<close> is 493, \<^verbatim>\<open>0600\<close> is 384, \<^verbatim>\<open>0022\<close> is 18.
\<close>

definition quietBackend :: "unit backend" where
  "quietBackend =
     \<lparr> Worktree = (\<lambda>g. None),
       worktree_Add = (\<lambda>path root g. (None, g)),
       runCommand = (\<lambda>command args root g. (([], None), root, g)),
       SyncWithRemote = (\<lambda>message w. (None, w)),
       TempDir = ''/tmp'' \<rparr>"

definition demoRepo :: GitRepo where
  "demoRepo = \<lparr> Path = ''/repo'', RemoteURL = ''https://example.org/configs.git'' \<rparr>"

definition demoResolver :: ConflictResolver where
  "demoResolver =
     \<lparr> Repo = demoRepo,
       Conflicts = [\<lparr> ConflictPath = ''a'', LocalSHA = [], RemoteSHA = [] \<rparr>,
                    \<lparr> ConflictPath = ''b'', LocalSHA = [], RemoteSHA = [] \<rparr>] \<rparr>"

definition conflictWorld :: "unit world" where
  "conflictWorld =
     \<lparr> fs = Dir 493 [(''repo'', Dir 493 [(''b'', File 384 ''<<<<<<< ours'')])],
       umask = 18, console = [], git = () \<rparr>"

section \<open>Notions used to state and prove the properties of a full walk\<close>

text \<open>
  An entry is present when \<^verbatim>\<open>os.Stat\<close> does not answer "does not exist". A change
  of one entry is gentle when it removes nothing, leaves a directory a directory with
  the same listing, and leaves a file a file.
\<close>

definition present :: "node \<Rightarrow> path \<Rightarrow> bool" where
  "present root q = (\<not> os_IsNotExist (os_Stat root q))"

definition gentle :: "(node option \<Rightarrow> errno + node option) \<Rightarrow> bool" where
  "gentle f =
     (\<forall>x y. f x = Inr y \<longrightarrow>
        y \<noteq> None
        \<and> (\<forall>md es. x = Some (Dir md es) \<longrightarrow> (\<exists>md'. y = Some (Dir md' es)))
        \<and> (\<forall>md c. x = Some (File md c) \<longrightarrow> (\<exists>md' c'. y = Some (File md' c'))))"

text \<open>
  The world in which a run of \<^verbatim>\<open>InitialSync\<close> hands over to the backend: the world
  the run ends in when the sync cycle of the backend is replaced by one that does
  nothing and succeeds.
\<close>

definition beforeSync :: "'g backend \<Rightarrow> Manager \<Rightarrow> node option \<Rightarrow> 'g world \<Rightarrow> 'g world" where
  "beforeSync be m source w =
     snd (snd (InitialSync (be\<lparr>SyncWithRemote := (\<lambda>message w. (None, w))\<rparr>) m source w))"

text \<open>
  The regular files of a tree with their paths, in the order of the walk. The walk of
  \<^verbatim>\<open>InitialSync\<close> enters a directory when it is the root or in scope, and counts a
  regular file when it is not the root and in scope. It reaches a regular file when
  it counts the file and enters every directory above it, the root among them.
\<close>

fun filesBelow :: "path \<Rightarrow> node \<Rightarrow> path list"
  and filesBelowIn :: "path \<Rightarrow> (string \<times> node) list \<Rightarrow> path list" where
  "filesBelow p (File md c) = [p]"
| "filesBelow p (Dir md es) = filesBelowIn p es"
| "filesBelowIn p [] = []"
| "filesBelowIn p ((name, entry) # rest) = filesBelow (p @ [name]) entry @ filesBelowIn p rest"

definition entered :: "Manager \<Rightarrow> path \<Rightarrow> bool" where
  "entered m p = (relPathOf p = ''.'' \<or> shouldInclude m (relPathOf p))"

definition counted :: "Manager \<Rightarrow> path \<Rightarrow> bool" where
  "counted m p = (relPathOf p \<noteq> ''.'' \<and> shouldInclude m (relPathOf p))"

definition reached :: "Manager \<Rightarrow> path \<Rightarrow> bool" where
  "reached m q = (counted m q \<and> list_all (\<lambda>k. entered m (take k q)) [0..<length q])"

text \<open>
  The number of regular files that the walk of \<^verbatim>\<open>InitialSync\<close> reaches, computed
  along the walk, and the statement that every directory the walk enters below the
  root is present in the mirror. Both follow the walk: the root is entered without a
  test, and a directory out of scope is not entered.
\<close>

fun scopedFiles :: "Manager \<Rightarrow> path \<Rightarrow> node \<Rightarrow> nat"
  and scopedFilesIn :: "Manager \<Rightarrow> path \<Rightarrow> (string \<times> node) list \<Rightarrow> nat" where
  "scopedFiles m p (File md c) =
     (if relPathOf p \<noteq> ''.'' \<and> shouldInclude m (relPathOf p) then 1 else 0)"
| "scopedFiles m p (Dir md es) =
     (if relPathOf p = ''.'' \<or> shouldInclude m (relPathOf p) then scopedFilesIn m p es else 0)"
| "scopedFilesIn m p [] = 0"
| "scopedFilesIn m p ((name, entry) # rest) = scopedFiles m (p @ [name]) entry + scopedFilesIn m p rest"

fun dirsPresent :: "Manager \<Rightarrow> node \<Rightarrow> path \<Rightarrow> node \<Rightarrow> bool"
  and dirsPresentIn :: "Manager \<Rightarrow> node \<Rightarrow> path \<Rightarrow> (string \<times> node) list \<Rightarrow> bool" where
  "dirsPresent m root p (File md c) = True"
| "dirsPresent m root p (Dir md es) =
     (if relPathOf p = ''.'' then dirsPresentIn m root p es
      else if shouldInclude m (relPathOf p)
      then present root (filepath_Join (RepoDir m) (relPathOf p)) \<and> dirsPresentIn m root p es
      else True)"
| "dirsPresentIn m root p [] = True"
| "dirsPresentIn m root p ((name, entry) # rest) =
     (dirsPresent m root (p @ [name]) entry \<and> dirsPresentIn m root p rest)"

text \<open>The state that a walk ends in, however it ends.\<close>

fun resultState :: "'s walkResult \<Rightarrow> 's" where
  "resultState (Continue s) = s"
| "resultState (SkipDir s) = s"
| "resultState (Failed e s) = s"

text \<open>A source tree and a world with an empty mirror, for concrete runs.\<close>

definition demoSource :: "node option" where
  "demoSource =
     Some (Dir 493 [(''i3'', Dir 493 [(''config'', File 420 ''bar'')]),
                    (''notes.txt'', File 420 ''hello'')])"

definition demoWorld :: "unit world" where
  "demoWorld = \<lparr> fs = Dir 493 [(''repo'', Dir 493 [])], umask = 18, console = [], git = () \<rparr>"

text \<open>
  Managers for \<^verbatim>\<open>/cfg\<close> and \<^verbatim>\<open>/repo\<close>: one that \<^verbatim>\<open>NewManager\<close> builds from
  no pattern at all (the compiler is then never called), and one whose only include
  matcher accepts the single path \<^verbatim>\<open>i3/config\<close>. Then the state in which the watcher
  loop starts.
\<close>

definition demoManager :: Manager where
  "demoManager =
     NewManager (\<lambda>pattern. None) ''/cfg'' ''/repo'' [] [] (5 * second) False False"

definition pickyManager :: Manager where
  "pickyManager =
     \<lparr> ConfigDir = ''/cfg'', RepoDir = ''/repo'',
       IncludeGlobs = [\<lambda>relPath. relPath = ''i3/config''], ExcludeGlobs = [],
       SyncInterval = 5 * second, Verbose = False, NotifyManager = False \<rparr>"

text \<open>
  A manager with one include matcher, which accepts the paths that start with
  \<^verbatim>\<open>i3/\<close>, and one exclude matcher, which accepts the paths that end in
  \<^verbatim>\<open>.log\<close>.
\<close>

definition rulesManager :: Manager where
  "rulesManager =
     \<lparr> ConfigDir = ''/cfg'', RepoDir = ''/repo'',
       IncludeGlobs = [prefix ''i3/''], ExcludeGlobs = [suffix ''.log''],
       SyncInterval = 5 * second, Verbose = False, NotifyManager = False \<rparr>"

definition startWatcher :: "unit world \<Rightarrow> unit watcher" where
  "startWatcher w = \<lparr> debounceEvents = [], watched = [], theWorld = w \<rparr>"

text \<open>
  Inputs of the watcher loop: two writes to \<^verbatim>\<open>/cfg/notes.txt\<close> 0.2 seconds apart, a
  write to another file, and a tick 0.7 seconds after the start.
\<close>

definition burstInputs :: "(moment \<times> input) list" where
  "burstInputs =
     [(\<lparr>now = 0, sourceTree = demoSource\<rparr>, FsEvent ''/cfg/notes.txt'' fsnotify_Write),
      (\<lparr>now = 200000000, sourceTree = demoSource\<rparr>, FsEvent ''/cfg/notes.txt'' fsnotify_Write),
      (\<lparr>now = 300000000, sourceTree = demoSource\<rparr>, FsEvent ''/cfg/i3/config'' fsnotify_Write),
      (\<lparr>now = 700000000, sourceTree = demoSource\<rparr>, Tick)]"

text \<open>
  The world after a first full run on the demo tree, and a source tree with two files
  whose names contain a comma and a space.
\<close>

definition afterFirst :: "unit world" where
  "afterFirst =
     \<lparr> fs = Dir 493 [(''repo'', Dir 493 [(''i3'', Dir 493 [(''config'', File 420 ''bar'')]),
                                        (''notes.txt'', File 420 ''hello'')])],
       umask = 18,
       console = [FileOperation ''added'' ''dir: i3'', FileOperation ''added'' ''i3/config'',
                  FileOperation ''added'' ''notes.txt'',
                  Info ''Synchronized 2 files and 1 directories'',
                  Info ''Committing changes to repository...''],
       git = () \<rparr>"

definition commaSource :: "node option" where
  "commaSource = Some (Dir 493 [(''a, b, c'', File 420 ''x''), (''d, e'', File 420 ''y'')])"

section \<open>Verification of the path filter\<close>

lemma anyMatch_iff: "anyMatch gs relPath \<longleftrightarrow> (\<exists>g \<in> set gs. g relPath)"
  by (induction gs) auto

lemma contains_dot_git_gitignore: "strings_Contains ''.gitignore'' ''.git''"
  by (simp add: strings_Contains_def sublist_Cons_right prefix_Cons)

text \<open>
  Claim C1. If a relative path is matched by at least one include matcher and by at
  least one exclude matcher of the manager, \<^verbatim>\<open>shouldInclude\<close> returns false, whatever
  the matchers are.
\<close>

theorem C1_exclude_precedence:
  assumes "\<exists>g \<in> set (IncludeGlobs m). g relPath"
    and "\<exists>g \<in> set (ExcludeGlobs m). g relPath"
  shows "\<not> shouldInclude m relPath"
  using assms(2) by (simp add: shouldInclude_def anyMatch_iff)

theorem C1_exclude_precedence_witness:
  "(\<exists>g \<in> set (IncludeGlobs rulesManager). g ''i3/x.log'')
   \<and> (\<exists>g \<in> set (ExcludeGlobs rulesManager). g ''i3/x.log'')
   \<and> \<not> shouldInclude rulesManager ''i3/x.log''"
proof -
  have inc: "\<exists>g \<in> set (IncludeGlobs rulesManager). g ''i3/x.log''"
    by (simp add: rulesManager_def)
  have exc: "\<exists>g \<in> set (ExcludeGlobs rulesManager). g ''i3/x.log''"
    by (simp add: rulesManager_def suffix_to_prefix)
  from C1_exclude_precedence [OF inc exc] inc exc show ?thesis by blast
qed

text \<open>
  Claim C9, as the code has it. With no include matcher, \<^verbatim>\<open>shouldInclude\<close> returns
  true exactly for the paths that do not contain the character sequence \<^verbatim>\<open>.git\<close>
  anywhere and that no exclude matcher matches.
\<close>

theorem C9_empty_include:
  assumes "IncludeGlobs m = []"
  shows "shouldInclude m relPath \<longleftrightarrow>
           \<not> strings_Contains relPath ''.git'' \<and> \<not> (\<exists>g \<in> set (ExcludeGlobs m). g relPath)"
  using assms by (auto simp add: shouldInclude_def anyMatch_iff)

theorem C9_empty_include_witness:
  "IncludeGlobs (rulesManager\<lparr>IncludeGlobs := []\<rparr>) = []
   \<and> shouldInclude (rulesManager\<lparr>IncludeGlobs := []\<rparr>) ''i3/config''
   \<and> \<not> shouldInclude (rulesManager\<lparr>IncludeGlobs := []\<rparr>) ''i3/x.log''"
proof -
  let ?m = "rulesManager\<lparr>IncludeGlobs := []\<rparr>"
  have inc: "IncludeGlobs ?m = []" by simp
  have a: "\<not> strings_Contains ''i3/config'' ''.git'' \<and> \<not> (\<exists>g \<in> set (ExcludeGlobs ?m). g ''i3/config'')"
    by (simp add: rulesManager_def suffix_to_prefix strings_Contains_def sublist_Cons_right prefix_Cons)
  have b: "\<exists>g \<in> set (ExcludeGlobs ?m). g ''i3/x.log''"
    by (simp add: rulesManager_def suffix_to_prefix)
  from C9_empty_include [OF inc, of "''i3/config''"] C9_empty_include [OF inc, of "''i3/x.log''"] inc a b
  show ?thesis by blast
qed

text \<open>
  The claim as the specification words it fails at \<^verbatim>\<open>.gitignore\<close>: the path has no
  segment \<^verbatim>\<open>.git\<close> and, with no exclude matcher, matches none, yet it is rejected.
\<close>

theorem C9_gitignore_counterexample:
  "IncludeGlobs \<lparr> ConfigDir = ''/cfg'', RepoDir = ''/repo'', IncludeGlobs = [], ExcludeGlobs = [],
       SyncInterval = 5, Verbose = False, NotifyManager = False \<rparr> = []
   \<and> ExcludeGlobs \<lparr> ConfigDir = ''/cfg'', RepoDir = ''/repo'', IncludeGlobs = [], ExcludeGlobs = [],
       SyncInterval = 5, Verbose = False, NotifyManager = False \<rparr> = []
   \<and> \<not> spec_hasMetadataSegment ''.gitignore''
   \<and> \<not> shouldInclude \<lparr> ConfigDir = ''/cfg'', RepoDir = ''/repo'', IncludeGlobs = [], ExcludeGlobs = [],
       SyncInterval = 5, Verbose = False, NotifyManager = False \<rparr> ''.gitignore''"
  using contains_dot_git_gitignore by (simp add: shouldInclude_def spec_hasMetadataSegment_def)

section \<open>Verification of the file system operations\<close>

lemma statOpt_Cons_Dir:
  "statOpt (Some (Dir m es)) (name # rest) = statOpt (map_of es name) rest"
  by (simp add: statOpt_def split: option.splits)

text \<open>
  What a successful change of one entry does at the path it was aimed at: \<open>f\<close> was
  applied to what was there, and its answer is what is there now.
\<close>

lemma modifyEntry_stat:
  "modifyEntry p f x = Inr y \<Longrightarrow>
     \<exists>r. f (resultOpt (statOpt x p)) = Inr r
        \<and> statOpt y p = (case r of None \<Rightarrow> Inl ENOENT | Some n \<Rightarrow> Inr n)"
proof (induction p arbitrary: x y)
  case Nil
  then show ?case by (cases x; cases y) (auto simp: statOpt_def)
next
  case (Cons name rest)
  show ?case
  proof (cases x)
    case None
    with Cons.prems show ?thesis by simp
  next
    case (Some n)
    show ?thesis
    proof (cases n)
      case (File m c)
      with Some Cons.prems show ?thesis by simp
    next
      case (Dir m es)
      from Cons.prems Some Dir obtain c where
        c: "modifyEntry rest f (map_of es name) = Inr c"
        and y: "y = Some (Dir m (case c of None \<Rightarrow> AList.delete name es
                                  | Some child \<Rightarrow> AList.update name child es))"
        by (auto split: sum.splits option.splits)
      from Cons.IH [OF c] obtain r where
        r: "f (resultOpt (statOpt (map_of es name) rest)) = Inr r"
           "statOpt c rest = (case r of None \<Rightarrow> Inl ENOENT | Some n \<Rightarrow> Inr n)"
        by blast
      have "statOpt y (name # rest) = statOpt c rest"
        unfolding y statOpt_Cons_Dir
        by (cases c) (simp_all add: update_conv' delete_conv' statOpt_def)
      with r show ?thesis
        unfolding Some Dir statOpt_Cons_Dir by auto
    qed
  qed
qed

lemma modifyAt_stat:
  assumes "modifyAt p f root = Inr root'"
  shows "\<exists>r. f (resultOpt (os_Stat root p)) = Inr r
            \<and> os_Stat root' p = (case r of None \<Rightarrow> Inl ENOENT | Some n \<Rightarrow> Inr n)"
proof -
  from assms have "modifyEntry p f (Some root) = Inr (Some root')"
    by (auto simp: modifyAt_def split: sum.splits option.splits)
  from modifyEntry_stat [OF this] show ?thesis
    by (simp add: statOpt_def)
qed

lemma WriteFile_stat:
  assumes "os_WriteFile um root p data perm = Inr root'"
  shows "os_Stat root' p =
           Inr (File (case os_Stat root p of Inr n \<Rightarrow> mode n | Inl e \<Rightarrow> perm AND NOT um) data)"
  using modifyAt_stat [OF assms [unfolded os_WriteFile_def]]
  by (cases "os_Stat root p") (auto split: option.splits node.splits sum.splits)

lemma ReadFile_Inr:
  "os_ReadFile root p = Inr c \<longleftrightarrow> (\<exists>m. os_Stat root p = Inr (File m c))"
  by (auto simp: os_ReadFile_def split: sum.splits node.splits)

section \<open>Verification of the conflict resolver\<close>

lemma strategies_distinct:
  "Merge \<noteq> KeepLocal" "Merge \<noteq> KeepRemote" "KeepLocal \<noteq> KeepRemote"
  by (simp_all add: Merge_def KeepLocal_def KeepRemote_def)

lemma markResolved_fs: "markResolved be path w = (r, w') \<Longrightarrow> fs w' = fs w"
  by (auto simp: markResolved_def split: prod.splits option.splits)

text \<open>
  A successful resolution with the merge strategy: the path held a regular file, and
  afterwards it holds a regular file with the same permission bits whose content is
  the marker followed by the old content.
\<close>

lemma ResolveConflict_Merge_success:
  assumes "ResolveConflict be cr path Merge w = (None, w')"
  shows "\<exists>m c. os_Stat (fs w) (filepath_Join (Path (Repo cr)) path) = Inr (File m c)
             \<and> os_Stat (fs w') (filepath_Join (Path (Repo cr)) path)
                 = Inr (File m (mergeHeader @ c))"
proof -
  let ?full = "filepath_Join (Path (Repo cr)) path"
  from assms obtain c fs1 where
    rd: "os_ReadFile (fs w) ?full = Inr c"
    and wr: "os_WriteFile (umask w) (fs w) ?full (mergeHeader @ c) 420 = Inr fs1"
    and mk: "markResolved be path
               (print (Info (''Creating merged version of '' @ path)) w\<lparr>fs := fs1\<rparr>) = (None, w')"
    by (auto simp: ResolveConflict_def strategies_distinct print_def Let_def
        split: option.splits sum.splits)
  from rd obtain m where st: "os_Stat (fs w) ?full = Inr (File m c)"
    by (auto simp: ReadFile_Inr)
  from WriteFile_stat [OF wr] st have "os_Stat fs1 ?full = Inr (File m (mergeHeader @ c))"
    by simp
  moreover from markResolved_fs [OF mk] have "fs w' = fs1" by (simp add: print_def)
  ultimately show ?thesis using st by auto
qed

lemma join_repo_a: "filepath_Join ''/repo'' ''a'' = [''repo'', ''a'']"
  by (simp add: filepath_Join_def)

lemma join_repo_b: "filepath_Join ''/repo'' ''b'' = [''repo'', ''b'']"
  by (simp add: filepath_Join_def)

lemma demo_merge_a:
  "ResolveConflict quietBackend demoResolver ''a'' Merge conflictWorld =
     (Some (Wrapped ''failed to read conflict file'' (Errno ENOENT)),
      conflictWorld\<lparr>console := [Info ''Creating merged version of a'']\<rparr>)"
  by (simp add: demoResolver_def demoRepo_def ResolveConflict_def quietBackend_def
      conflictWorld_def strategies_distinct print_def join_repo_a os_ReadFile_def Let_def)

lemma demo_merge_b:
  "ResolveConflict quietBackend demoResolver ''b'' Merge conflictWorld =
     (None, conflictWorld
        \<lparr>console := [Info ''Creating merged version of b''],
         fs := Dir 493 [(''repo'', Dir 493 [(''b'', File 384 (mergeHeader @ ''<<<<<<< ours''))])]\<rparr>)"
  by (simp add: demoResolver_def demoRepo_def ResolveConflict_def quietBackend_def
      conflictWorld_def strategies_distinct print_def join_repo_b os_ReadFile_def
      os_WriteFile_def modifyAt_def markResolved_def Let_def)

lemma demo_stat_b:
  "os_Stat (fs conflictWorld) (filepath_Join (Path (Repo demoResolver)) ''b'')
     = Inr (File 384 ''<<<<<<< ours'')"
  by (simp add: demoResolver_def demoRepo_def conflictWorld_def join_repo_b)

text \<open>
  Claim C6. When the file at the conflicting path holds the content \<open>c\<close> and
  \<^verbatim>\<open>ResolveConflict\<close> succeeds with the merge strategy, the file then holds the fixed
  marker followed by \<open>c\<close>, byte for byte; so \<open>c\<close> occurs in it as a contiguous run.
\<close>

theorem C6_merge_both_keeps_conflicted_content:
  assumes "os_ReadFile (fs w) (filepath_Join (Path (Repo cr)) path) = Inr c"
    and "ResolveConflict be cr path Merge w = (None, w')"
  shows "os_ReadFile (fs w') (filepath_Join (Path (Repo cr)) path) = Inr (mergeHeader @ c)
         \<and> sublist c (mergeHeader @ c)"
proof -
  from ResolveConflict_Merge_success [OF assms(2)] assms(1)
  have "os_ReadFile (fs w') (filepath_Join (Path (Repo cr)) path) = Inr (mergeHeader @ c)"
    by (auto simp: ReadFile_Inr)
  then show ?thesis by simp
qed

theorem C6_merge_both_witness:
  "os_ReadFile (fs conflictWorld) (filepath_Join (Path (Repo demoResolver)) ''b'')
     = Inr ''<<<<<<< ours''
   \<and> fst (ResolveConflict quietBackend demoResolver ''b'' Merge conflictWorld) = None
   \<and> os_ReadFile (fs (snd (ResolveConflict quietBackend demoResolver ''b'' Merge conflictWorld)))
         (filepath_Join (Path (Repo demoResolver)) ''b'')
       = Inr (mergeHeader @ ''<<<<<<< ours'')
   \<and> sublist ''<<<<<<< ours'' (mergeHeader @ ''<<<<<<< ours'')"
proof -
  have rd: "os_ReadFile (fs conflictWorld) (filepath_Join (Path (Repo demoResolver)) ''b'')
              = Inr ''<<<<<<< ours''"
    using demo_stat_b by (simp add: ReadFile_Inr)
  have ok: "ResolveConflict quietBackend demoResolver ''b'' Merge conflictWorld
              = (None, snd (ResolveConflict quietBackend demoResolver ''b'' Merge conflictWorld))"
    by (simp add: demo_merge_b)
  from C6_merge_both_keeps_conflicted_content [OF rd ok] rd ok show ?thesis
    by (simp add: demo_merge_b)
qed

text \<open>
  Claim C10, as the code has it. \<^verbatim>\<open>ResolveConflict\<close> has just read the file when it
  calls \<^verbatim>\<open>os.WriteFile(fullPath, ..., 0644)\<close>, so the file is there, and
  \<^verbatim>\<open>os.WriteFile\<close> gives its mode argument only to a file it creates. When the
  resolution succeeds, the file keeps the permission bits \<open>m\<close> it had before.
\<close>

theorem C10_merge_both_keeps_permission_bits:
  assumes "os_Stat (fs w) (filepath_Join (Path (Repo cr)) path) = Inr (File m c)"
    and "ResolveConflict be cr path Merge w = (None, w')"
  shows "os_Stat (fs w') (filepath_Join (Path (Repo cr)) path) = Inr (File m (mergeHeader @ c))"
  using ResolveConflict_Merge_success [OF assms(2)] assms(1) by auto

theorem C10_merge_both_witness:
  "os_Stat (fs conflictWorld) (filepath_Join (Path (Repo demoResolver)) ''b'')
     = Inr (File 384 ''<<<<<<< ours'')
   \<and> fst (ResolveConflict quietBackend demoResolver ''b'' Merge conflictWorld) = None
   \<and> os_Stat (fs (snd (ResolveConflict quietBackend demoResolver ''b'' Merge conflictWorld)))
         (filepath_Join (Path (Repo demoResolver)) ''b'')
       = Inr (File 384 (mergeHeader @ ''<<<<<<< ours''))"
proof -
  have ok: "ResolveConflict quietBackend demoResolver ''b'' Merge conflictWorld
              = (None, snd (ResolveConflict quietBackend demoResolver ''b'' Merge conflictWorld))"
    by (simp add: demo_merge_b)
  from C10_merge_both_keeps_permission_bits [OF demo_stat_b ok] demo_stat_b show ?thesis
    by (simp add: demo_merge_b)
qed

text \<open>
  The claim as stated fails on a file with the permission bits \<^verbatim>\<open>0600\<close> (384): the
  resolution succeeds and the file still has \<^verbatim>\<open>0600\<close>, not \<^verbatim>\<open>0644\<close> (420).
\<close>

theorem C10_mode_0600_counterexample:
  "mode (File 384 ''<<<<<<< ours'') \<noteq> 420
   \<and> os_Stat (fs conflictWorld) [''repo'', ''b''] = Inr (File 384 ''<<<<<<< ours'')
   \<and> fst (ResolveConflict quietBackend demoResolver ''b'' Merge conflictWorld) = None
   \<and> os_Stat (fs (snd (ResolveConflict quietBackend demoResolver ''b'' Merge conflictWorld)))
         [''repo'', ''b'']
       = Inr (File 384 (mergeHeader @ ''<<<<<<< ours''))"
  by (simp add: demo_merge_b) (simp add: conflictWorld_def)

text \<open>
  The loop of \<^verbatim>\<open>ResolveAllConflicts\<close> over a list that is split at one conflict.
\<close>

lemma resolveEach_append_failure:
  assumes "resolveEach be cr before strategy w = (None, w1)"
    and "ResolveConflict be cr (ConflictPath c) strategy w1 = (Some err, w2)"
  shows "resolveEach be cr (before @ c # after) strategy w =
           (Some (Wrapped (''failed to resolve conflict for '' @ ConflictPath c) err), w2)"
  using assms
proof (induction before arbitrary: w)
  case Nil
  then show ?case by simp
next
  case (Cons x xs)
  then show ?case by (auto split: prod.splits option.splits)
qed

lemma ResolveConflict_Conflicts_update:
  "ResolveConflict be (cr\<lparr>Conflicts := cs\<rparr>) path strategy w = ResolveConflict be cr path strategy w"
  by (simp add: ResolveConflict_def Let_def cong: option.case_cong)

lemma resolveEach_Conflicts_update:
  "resolveEach be (cr\<lparr>Conflicts := cs\<rparr>) xs strategy w = resolveEach be cr xs strategy w"
  by (induction xs arbitrary: w)
    (auto simp: ResolveConflict_Conflicts_update split: prod.splits option.splits)

text \<open>
  Claim C7, as the code has it. Let the conflicts before \<open>c\<close> resolve without error,
  and let the resolution of \<open>c\<close> fail with \<open>err\<close>, leaving the world \<open>w2\<close>. Then
  \<^verbatim>\<open>ResolveAllConflicts\<close> returns that one error, wrapped with the path of \<open>c\<close>, and
  the world \<open>w2\<close>: whatever conflicts come after \<open>c\<close>, none of them is attempted.
\<close>

theorem C7_resolution_stops_at_first_failure:
  assumes "Conflicts cr = before @ c # after"
    and "ResolveAllConflicts be (cr\<lparr>Conflicts := before\<rparr>) strategy w = (None, w1)"
    and "ResolveConflict be cr (ConflictPath c) strategy w1 = (Some err, w2)"
  shows "ResolveAllConflicts be cr strategy w =
           (Some (Wrapped (''failed to resolve conflict for '' @ ConflictPath c) err), w2)"
proof -
  from assms(2) have "resolveEach be cr before strategy w = (None, w1)"
    by (simp add: ResolveAllConflicts_def resolveEach_Conflicts_update)
  from resolveEach_append_failure [OF this assms(3)] assms(1) show ?thesis
    by (simp add: ResolveAllConflicts_def)
qed

theorem C7_resolution_stops_witness:
  "Conflicts demoResolver =
     [] @ \<lparr> ConflictPath = ''a'', LocalSHA = [], RemoteSHA = [] \<rparr>
        # [\<lparr> ConflictPath = ''b'', LocalSHA = [], RemoteSHA = [] \<rparr>]
   \<and> ResolveAllConflicts quietBackend (demoResolver\<lparr>Conflicts := []\<rparr>) Merge conflictWorld
       = (None, conflictWorld)
   \<and> ResolveConflict quietBackend demoResolver ''a'' Merge conflictWorld
       = (Some (Wrapped ''failed to read conflict file'' (Errno ENOENT)),
          conflictWorld\<lparr>console := [Info ''Creating merged version of a'']\<rparr>)
   \<and> ResolveAllConflicts quietBackend demoResolver Merge conflictWorld
       = (Some (Wrapped ''failed to resolve conflict for a''
                  (Wrapped ''failed to read conflict file'' (Errno ENOENT))),
          conflictWorld\<lparr>console := [Info ''Creating merged version of a'']\<rparr>)"
proof -
  have split: "Conflicts demoResolver =
     [] @ \<lparr> ConflictPath = ''a'', LocalSHA = [], RemoteSHA = [] \<rparr>
        # [\<lparr> ConflictPath = ''b'', LocalSHA = [], RemoteSHA = [] \<rparr>]"
    by (simp add: demoResolver_def)
  have first: "ResolveAllConflicts quietBackend (demoResolver\<lparr>Conflicts := []\<rparr>) Merge conflictWorld
                 = (None, conflictWorld)"
    by (simp add: ResolveAllConflicts_def)
  have fails: "ResolveConflict quietBackend demoResolver
                 (ConflictPath \<lparr> ConflictPath = ''a'', LocalSHA = [], RemoteSHA = [] \<rparr>) Merge conflictWorld
               = (Some (Wrapped ''failed to read conflict file'' (Errno ENOENT)),
                  conflictWorld\<lparr>console := [Info ''Creating merged version of a'']\<rparr>)"
    by (simp add: demo_merge_a)
  from C7_resolution_stops_at_first_failure [OF split first fails] split first fails
  show ?thesis by simp
qed

text \<open>
  The claim as stated fails on the two conflicts \<^verbatim>\<open>a\<close> and \<^verbatim>\<open>b\<close> when the file
  \<^verbatim>\<open>a\<close> is missing: the resolution of \<^verbatim>\<open>b\<close> alone would succeed, but after the
  failure on \<^verbatim>\<open>a\<close> the caller holds one error, the file \<^verbatim>\<open>b\<close> is as it was, and
  nothing was printed for \<^verbatim>\<open>b\<close>.
\<close>

theorem C7_second_conflict_untouched_counterexample:
  "map ConflictPath (Conflicts demoResolver) = [''a'', ''b'']
   \<and> fst (ResolveConflict quietBackend demoResolver ''b'' Merge conflictWorld) = None
   \<and> ResolveAllConflicts quietBackend demoResolver Merge conflictWorld
       = (Some (Wrapped ''failed to resolve conflict for a''
                  (Wrapped ''failed to read conflict file'' (Errno ENOENT))),
          conflictWorld\<lparr>console := [Info ''Creating merged version of a'']\<rparr>)"
  by (simp add: demo_merge_b) (simp add: ResolveAllConflicts_def demoResolver_def demo_merge_a [unfolded demoResolver_def])

section \<open>Verification of the change aggregation\<close>

























lemma demo_burst:
  "debounceEvents (watcherLoop quietBackend demoManager burstInputs (startWatcher demoWorld))
     = [(''/cfg/notes.txt'', 200000000), (''/cfg/i3/config'', 300000000)]"
  by code_simp




section \<open>Verification of the reconciliation\<close>

lemma Mkdir_stat:
  assumes "os_Mkdir um root p perm = Inr root'"
  shows "os_Stat root' p = Inr (Dir (perm AND NOT um) [])"
  using modifyAt_stat [OF assms [unfolded os_Mkdir_def]]
  by (auto split: option.splits)

lemma MkdirAll_isDir:
  assumes "os_MkdirAll um root p perm = Inr root'"
  shows "\<exists>n. os_Stat root' p = Inr n \<and> IsDir n"
proof (cases "os_Stat root p")
  case (Inr n)
  with assms show ?thesis
    by (subst (asm) os_MkdirAll.simps) (auto split: if_splits)
next
  case (Inl e0)
  with assms obtain root1 where
    made: "(\<exists>root2. os_Mkdir um root1 p perm = Inr root2 \<and> root' = root2)
           \<or> (\<exists>n. os_Stat root1 p = Inr n \<and> IsDir n \<and> root' = root1)"
    by (subst (asm) os_MkdirAll.simps) (auto split: if_splits sum.splits)
  then show ?thesis
    by (auto dest: Mkdir_stat)
qed

lemma MkdirAll_present:
  "os_MkdirAll um root p perm = Inr root' \<Longrightarrow> present root' p"
  by (auto simp: present_def os_IsNotExist_def dest: MkdirAll_isDir)

lemma gentle_never_removes: "gentle f \<Longrightarrow> modifyEntry p f x = Inr y \<Longrightarrow> y \<noteq> None"
proof (induction p arbitrary: x y)
  case Nil
  then show ?case by (auto simp: gentle_def)
next
  case (Cons name rest)
  then show ?case
    by (cases x; cases "the x") (auto split: sum.splits option.splits)
qed

lemma modifyEntry_keeps_present:
  assumes g: "gentle f"
  shows "modifyEntry p f x = Inr y \<Longrightarrow> statOpt x q \<noteq> Inl ENOENT \<Longrightarrow> statOpt y q \<noteq> Inl ENOENT"
proof (induction p arbitrary: x y q)
  case Nil
  from Nil have fx: "f x = Inr y" by simp
  show ?case
  proof (cases x)
    case None
    with Nil show ?thesis by (simp add: statOpt_def)
  next
    case (Some n)
    show ?thesis
    proof (cases n)
      case (File md c)
      with g fx Some obtain md' c' where "y = Some (File md' c')"
        unfolding gentle_def by blast
      then show ?thesis by (cases q) (simp_all add: statOpt_def)
    next
      case (Dir md es)
      with g fx Some obtain md' where "y = Some (Dir md' es)"
        unfolding gentle_def by blast
      with Nil(2) Some Dir show ?thesis by (cases q) (simp_all add: statOpt_def)
    qed
  qed
next
  case (Cons name rest)
  show ?case
  proof (cases x)
    case None
    with Cons.prems show ?thesis by simp
  next
    case (Some n)
    show ?thesis
    proof (cases n)
      case (File md c)
      with Some Cons.prems show ?thesis by simp
    next
      case (Dir md es)
      from Cons.prems(1) Some Dir obtain c where
        c: "modifyEntry rest f (map_of es name) = Inr c"
        and y: "y = Some (Dir md (case c of None \<Rightarrow> AList.delete name es
                                   | Some child \<Rightarrow> AList.update name child es))"
        by (auto split: sum.splits option.splits)
      from gentle_never_removes [OF g c] obtain child where child: "c = Some child" by auto
      show ?thesis
      proof (cases q)
        case Nil
        with y show ?thesis by (simp add: statOpt_def)
      next
        case (Cons n qs)
        show ?thesis
        proof (cases "n = name")
          case True
          from Cons.prems(2) Some Dir \<open>q = n # qs\<close> True
          have "statOpt (map_of es name) qs \<noteq> Inl ENOENT"
            by (simp add: statOpt_Cons_Dir)
          from Cons.IH [OF c this] show ?thesis
            unfolding y child \<open>q = n # qs\<close> True statOpt_Cons_Dir
            by (simp add: update_conv')
        next
          case False
          with Cons.prems(2) Some Dir \<open>q = n # qs\<close> show ?thesis
            unfolding y child statOpt_Cons_Dir
            by (simp add: update_conv' statOpt_Cons_Dir)
        qed
      qed
    qed
  qed
qed

lemma modifyAt_keeps_present:
  assumes "gentle f" "modifyAt p f root = Inr root'" "present root q"
  shows "present root' q"
proof -
  from assms(2) have "modifyEntry p f (Some root) = Inr (Some root')"
    by (auto simp: modifyAt_def split: sum.splits option.splits)
  from modifyEntry_keeps_present [OF assms(1) this, of q] assms(3)
  show ?thesis by (simp add: present_def os_IsNotExist_def statOpt_def)
qed

lemma gentle_ops:
  "gentle (\<lambda>x. case x of None \<Rightarrow> Inr (Some (Dir d [])) | Some n \<Rightarrow> Inl EEXIST)"
  "gentle (\<lambda>x. case x of None \<Rightarrow> Inr (Some (File fm data))
                     | Some (File m c) \<Rightarrow> Inr (Some (File m data))
                     | Some (Dir m es) \<Rightarrow> Inl EISDIR)"
  "gentle (\<lambda>x. case x of None \<Rightarrow> Inl ENOENT
                       | Some (File m old) \<Rightarrow> Inr (Some (File m c))
                       | Some (Dir m es) \<Rightarrow> Inl EISDIR)"
  "gentle (\<lambda>x. case x of None \<Rightarrow> Inl ENOENT
                     | Some (File m c) \<Rightarrow> Inr (Some (File perm c))
                     | Some (Dir m es) \<Rightarrow> Inr (Some (Dir perm es)))"
  by (auto simp: gentle_def split: option.splits node.splits)

lemma Mkdir_keeps_present: "os_Mkdir um root p perm = Inr root' \<Longrightarrow> present root q \<Longrightarrow> present root' q"
  unfolding os_Mkdir_def by (rule modifyAt_keeps_present [OF gentle_ops(1)])

lemma WriteFile_keeps_present:
  "os_WriteFile um root p data perm = Inr root' \<Longrightarrow> present root q \<Longrightarrow> present root' q"
  unfolding os_WriteFile_def by (rule modifyAt_keeps_present [OF gentle_ops(2)])

lemma io_Copy_keeps_present: "io_Copy root p c = Inr root' \<Longrightarrow> present root q \<Longrightarrow> present root' q"
  unfolding io_Copy_def by (rule modifyAt_keeps_present [OF gentle_ops(3)])

lemma Chmod_keeps_present: "os_Chmod root p perm = Inr root' \<Longrightarrow> present root q \<Longrightarrow> present root' q"
  unfolding os_Chmod_def by (rule modifyAt_keeps_present [OF gentle_ops(4)])

lemma MkdirAll_keeps_present:
  "os_MkdirAll um root p perm = Inr root' \<Longrightarrow> present root q \<Longrightarrow> present root' q"
proof (induction um root p perm arbitrary: root' rule: os_MkdirAll.induct)
  case (1 um root p perm)
  show ?case
  proof (cases "os_Stat root p")
    case (Inr n)
    with "1.prems" show ?thesis
      by (subst (asm) os_MkdirAll.simps) (auto split: if_splits)
  next
    case (Inl e0)
    with "1.prems"(1) have ne: "p \<noteq> []"
      by (subst (asm) os_MkdirAll.simps) (auto split: if_splits)
    from Inl ne "1.prems"(1) obtain root1 where
      parent: "os_MkdirAll um root (butlast p) perm = Inr root1"
      and made: "os_Mkdir um root1 p perm = Inr root' \<or> root' = root1"
      by (subst (asm) os_MkdirAll.simps) (auto split: if_splits sum.splits)
    from "1.IH" [OF Inl ne parent "1.prems"(2)] have "present root1 q" .
    with made show ?thesis by (auto dest: Mkdir_keeps_present)
  qed
qed

lemma copyFile_keeps_present:
  "copyFile source src dst w = (r, w') \<Longrightarrow> present (fs w) q \<Longrightarrow> present (fs w') q"
  by (auto simp: copyFile_def split: sum.splits node.splits)
    (blast intro: WriteFile_keeps_present io_Copy_keeps_present Chmod_keeps_present)+


lemma copyFile_keeps_present':
  "copyFile source src dst (w\<lparr>fs := fs1\<rparr>) = (r, w') \<Longrightarrow> present fs1 q \<Longrightarrow> present (fs w') q"
  using copyFile_keeps_present [of source src dst "w\<lparr>fs := fs1\<rparr>" r w' q] by simp

lemma entry_keeps_present:
  "present (fs (snd s)) q \<Longrightarrow>
     present (fs (snd (resultState (initialSyncEntry m source p info s)))) q"
  by (auto simp: initialSyncEntry_def Let_def print_def split: sum.splits prod.splits option.splits;
      blast intro: MkdirAll_keeps_present copyFile_keeps_present')

lemma entry_SkipDir:
  "initialSyncEntry m source p info s = SkipDir s' \<Longrightarrow>
     s' = s \<and> IsDir info \<and> relPathOf p \<noteq> ''.'' \<and> \<not> shouldInclude m (relPathOf p)"
  by (auto simp: initialSyncEntry_def Let_def split: sum.splits prod.splits option.splits if_splits)

lemma entry_Continue_files:
  "initialSyncEntry m source p info s = Continue s' \<Longrightarrow>
     fileCount (fst s') = fileCount (fst s)
        + (if \<not> IsDir info \<and> relPathOf p \<noteq> ''.'' \<and> shouldInclude m (relPathOf p) then 1 else 0)
     \<and> (IsDir info \<longrightarrow> relPathOf p = ''.'' \<or> shouldInclude m (relPathOf p))"
  by (auto simp: initialSyncEntry_def Let_def split: sum.splits prod.splits option.splits if_splits)

lemma entry_Continue_dirs:
  "initialSyncEntry m source p info s = Continue s' \<Longrightarrow>
     (IsDir info \<and> relPathOf p \<noteq> ''.'' \<and> shouldInclude m (relPathOf p)
        \<longrightarrow> present (fs (snd s')) (filepath_Join (RepoDir m) (relPathOf p)))
     \<and> (\<not> IsDir info \<or> relPathOf p = ''.'' \<or> \<not> shouldInclude m (relPathOf p)
          \<or> present (fs (snd s)) (filepath_Join (RepoDir m) (relPathOf p))
        \<longrightarrow> dirCount (fst s') = dirCount (fst s))"
  by (auto simp: initialSyncEntry_def Let_def print_def present_def
      split: sum.splits prod.splits option.splits if_splits dest: MkdirAll_present [unfolded present_def])


lemma walk_keeps_present:
  "walkFn = initialSyncEntry m source \<Longrightarrow> present (fs (snd s)) q
     \<Longrightarrow> present (fs (snd (resultState (walk walkFn p n s)))) q"
  "walkFn = initialSyncEntry m source \<Longrightarrow> present (fs (snd s)) q
     \<Longrightarrow> present (fs (snd (resultState (walkNames walkFn p es s)))) q"
proof (induction walkFn p n s and walkFn p es s rule: walk_walkNames.induct)
  case (1 walkFn p md c s)
  then show ?case using entry_keeps_present [of s q m source p "File md c"] by simp
next
  case (2 walkFn p md es s)
  from 2(2,3) have here: "present (fs (snd (resultState (walkFn p (Dir md es) s)))) q"
    using entry_keeps_present [of s q m source p "Dir md es"] by simp
  show ?case
  proof (cases "walkFn p (Dir md es) s")
    case (Continue s1)
    with here 2(1) [OF Continue 2(2)] show ?thesis by simp
  next
    case (SkipDir s1)
    with here show ?thesis by simp
  next
    case (Failed e s1)
    with here show ?thesis by simp
  qed
next
  case (3 walkFn p s)
  then show ?case by simp
next
  case (4 walkFn p name entry rest s)
  from 4(1) [OF 4(4,5)]
  have here: "present (fs (snd (resultState (walk walkFn (p @ [name]) entry s)))) q" .
  show ?case
  proof (cases "walk walkFn (p @ [name]) entry s")
    case (Continue s1)
    with here 4(2) [OF Continue 4(4)] show ?thesis by simp
  next
    case (SkipDir s1)
    with here 4(3) [OF SkipDir _ 4(4)] show ?thesis by (cases "IsDir entry") simp_all
  next
    case (Failed e s1)
    with here show ?thesis by simp
  qed
qed

lemma walk_counts_files:
  "walkFn = initialSyncEntry m source \<Longrightarrow>
     (case walk walkFn p n s of
        Continue s' \<Rightarrow> fileCount (fst s') = fileCount (fst s) + scopedFiles m p n
      | SkipDir s' \<Rightarrow> s' = s \<and> IsDir n \<and> scopedFiles m p n = 0
      | Failed e s' \<Rightarrow> True)"
  "walkFn = initialSyncEntry m source \<Longrightarrow>
     (case walkNames walkFn p es s of
        Continue s' \<Rightarrow> fileCount (fst s') = fileCount (fst s) + scopedFilesIn m p es
      | SkipDir s' \<Rightarrow> False
      | Failed e s' \<Rightarrow> True)"
proof (induction walkFn p n s and walkFn p es s rule: walk_walkNames.induct)
  case (1 walkFn p md c s)
  show ?case
  proof (cases "walkFn p (File md c) s")
    case (Continue s1)
    with 1 have "initialSyncEntry m source p (File md c) s = Continue s1" by simp
    from entry_Continue_files [OF this] Continue show ?thesis by simp
  next
    case (SkipDir s1)
    with 1 have "initialSyncEntry m source p (File md c) s = SkipDir s1" by simp
    from entry_SkipDir [OF this] show ?thesis by simp
  next
    case (Failed e s1)
    then show ?thesis by simp
  qed
next
  case (2 walkFn p md es s)
  show ?case
  proof (cases "walkFn p (Dir md es) s")
    case (Continue s1)
    with 2(2) have "initialSyncEntry m source p (Dir md es) s = Continue s1" by simp
    from entry_Continue_files [OF this]
    have c: "fileCount (fst s1) = fileCount (fst s)"
      and sc: "relPathOf p = ''.'' \<or> shouldInclude m (relPathOf p)" by simp_all
    from 2(1) [OF Continue 2(2)] c sc Continue show ?thesis
      by (cases "walkNames walkFn p es s1") auto
  next
    case (SkipDir s1)
    with 2(2) have "initialSyncEntry m source p (Dir md es) s = SkipDir s1" by simp
    from entry_SkipDir [OF this] SkipDir show ?thesis by simp
  next
    case (Failed e s1)
    then show ?thesis by simp
  qed
next
  case (3 walkFn p s)
  then show ?case by simp
next
  case (4 walkFn p name entry rest s)
  show ?case
  proof (cases "walk walkFn (p @ [name]) entry s")
    case (Continue s1)
    with 4(1) [OF 4(4)] 4(2) [OF Continue 4(4)] show ?thesis
      by (cases "walkNames walkFn p rest s1") auto
  next
    case (SkipDir s1)
    with 4(1) [OF 4(4)] have d: "IsDir entry" "s1 = s" "scopedFiles m (p @ [name]) entry = 0"
      by simp_all
    with SkipDir 4(3) [OF SkipDir d(1) 4(4)] show ?thesis
      by (cases "walkNames walkFn p rest s") auto
  next
    case (Failed e s1)
    then show ?thesis by simp
  qed
qed

lemma dirsPresent_mono:
  "(\<And>q. present root q \<Longrightarrow> present root' q) \<Longrightarrow> dirsPresent m root p n \<Longrightarrow> dirsPresent m root' p n"
  "(\<And>q. present root q \<Longrightarrow> present root' q) \<Longrightarrow> dirsPresentIn m root p es \<Longrightarrow> dirsPresentIn m root' p es"
  by (induction m root p n and m root p es rule: dirsPresent_dirsPresentIn.induct) (auto split: if_splits)


lemma walk_leaves_dirs_present:
  "walkFn = initialSyncEntry m source \<Longrightarrow>
     (case walk walkFn p n s of
        Continue s' \<Rightarrow> dirsPresent m (fs (snd s')) p n
      | SkipDir s' \<Rightarrow> dirsPresent m (fs (snd s')) p n
      | Failed e s' \<Rightarrow> True)"
  "walkFn = initialSyncEntry m source \<Longrightarrow>
     (case walkNames walkFn p es s of
        Continue s' \<Rightarrow> dirsPresentIn m (fs (snd s')) p es
      | SkipDir s' \<Rightarrow> True
      | Failed e s' \<Rightarrow> True)"
proof (induction walkFn p n s and walkFn p es s rule: walk_walkNames.induct)
  case (1 walkFn p md c s)
  show ?case by (cases "walkFn p (File md c) s") simp_all
next
  case (2 walkFn p md es s)
  show ?case
  proof (cases "walkFn p (Dir md es) s")
    case (Continue s1)
    with 2(2) have e: "initialSyncEntry m source p (Dir md es) s = Continue s1" by simp
    show ?thesis
    proof (cases "walkNames walkFn p es s1")
      case inner: (Continue s2)
      from 2(1) [OF Continue 2(2)] inner have kids: "dirsPresentIn m (fs (snd s2)) p es" by simp
      have "present (fs (snd s2)) (filepath_Join (RepoDir m) (relPathOf p))"
        if "relPathOf p \<noteq> ''.''" "shouldInclude m (relPathOf p)"
      proof -
        from entry_Continue_dirs [OF e] that
        have "present (fs (snd s1)) (filepath_Join (RepoDir m) (relPathOf p))" by simp
        from walk_keeps_present(2) [OF 2(2) this, of p es] inner show ?thesis by simp
      qed
      with kids Continue inner show ?thesis by simp
    next
      case (SkipDir s2)
      with walk_counts_files(2) [where p = p and es = es and s = s1, OF 2(2)] show ?thesis by simp
    next
      case (Failed e2 s2)
      with Continue show ?thesis by simp
    qed
  next
    case (SkipDir s1)
    with 2(2) have "initialSyncEntry m source p (Dir md es) s = SkipDir s1" by simp
    from entry_SkipDir [OF this] SkipDir show ?thesis by simp
  next
    case (Failed e s1)
    then show ?thesis by simp
  qed
next
  case (3 walkFn p s)
  then show ?case by simp
next
  case (4 walkFn p name entry rest s)
  show ?case
  proof (cases "walk walkFn (p @ [name]) entry s")
    case (Continue s1)
    from 4(1) [OF 4(4)] Continue have first: "dirsPresent m (fs (snd s1)) (p @ [name]) entry" by simp
    show ?thesis
    proof (cases "walkNames walkFn p rest s1")
      case inner: (Continue s2)
      from 4(2) [OF Continue 4(4)] inner have others: "dirsPresentIn m (fs (snd s2)) p rest" by simp
      have "dirsPresent m (fs (snd s2)) (p @ [name]) entry"
      proof (rule dirsPresent_mono(1) [OF _ first])
        fix q assume "present (fs (snd s1)) q"
        from walk_keeps_present(2) [OF 4(4) this, of p rest] inner
        show "present (fs (snd s2)) q" by simp
      qed
      with others Continue inner show ?thesis by simp
    next
      case (SkipDir s2)
      with Continue show ?thesis by simp
    next
      case (Failed e2 s2)
      with Continue show ?thesis by simp
    qed
  next
    case (SkipDir s1)
    from 4(1) [OF 4(4)] SkipDir have first: "dirsPresent m (fs (snd s1)) (p @ [name]) entry" by simp
    show ?thesis
    proof (cases "IsDir entry")
      case True
      show ?thesis
      proof (cases "walkNames walkFn p rest s1")
        case inner: (Continue s2)
        from 4(3) [OF SkipDir True 4(4)] inner have others: "dirsPresentIn m (fs (snd s2)) p rest"
          by simp
        have "dirsPresent m (fs (snd s2)) (p @ [name]) entry"
        proof (rule dirsPresent_mono(1) [OF _ first])
          fix q assume "present (fs (snd s1)) q"
          from walk_keeps_present(2) [OF 4(4) this, of p rest] inner
          show "present (fs (snd s2)) q" by simp
        qed
        with others SkipDir True inner show ?thesis by simp
      next
        case inner: (SkipDir s2)
        with SkipDir True show ?thesis by simp
      next
        case (Failed e2 s2)
        with SkipDir True show ?thesis by simp
      qed
    next
      case False
      with SkipDir show ?thesis by simp
    qed
  next
    case (Failed e s1)
    then show ?thesis by simp
  qed
qed

lemma walk_counts_no_dirs:
  "walkFn = initialSyncEntry m source \<Longrightarrow> dirsPresent m (fs (snd s)) p n \<Longrightarrow>
     (case walk walkFn p n s of
        Continue s' \<Rightarrow> dirCount (fst s') = dirCount (fst s)
      | SkipDir s' \<Rightarrow> dirCount (fst s') = dirCount (fst s)
      | Failed e s' \<Rightarrow> True)"
  "walkFn = initialSyncEntry m source \<Longrightarrow> dirsPresentIn m (fs (snd s)) p es \<Longrightarrow>
     (case walkNames walkFn p es s of
        Continue s' \<Rightarrow> dirCount (fst s') = dirCount (fst s)
      | SkipDir s' \<Rightarrow> True
      | Failed e s' \<Rightarrow> True)"
proof (induction walkFn p n s and walkFn p es s rule: walk_walkNames.induct)
  case (1 walkFn p md c s)
  show ?case
  proof (cases "walkFn p (File md c) s")
    case (Continue s1)
    with 1 have "initialSyncEntry m source p (File md c) s = Continue s1" by simp
    from entry_Continue_dirs [OF this] Continue show ?thesis by simp
  next
    case (SkipDir s1)
    with 1 have "initialSyncEntry m source p (File md c) s = SkipDir s1" by simp
    from entry_SkipDir [OF this] SkipDir show ?thesis by simp
  next
    case (Failed e s1)
    then show ?thesis by simp
  qed
next
  case (2 walkFn p md es s)
  show ?case
  proof (cases "walkFn p (Dir md es) s")
    case (Continue s1)
    with 2(2) have e: "initialSyncEntry m source p (Dir md es) s = Continue s1" by simp
    from entry_Continue_files [OF e]
    have sc: "relPathOf p = ''.'' \<or> shouldInclude m (relPathOf p)" by simp
    with 2(3) have kids: "dirsPresentIn m (fs (snd s)) p es"
      and here: "relPathOf p = ''.'' \<or> present (fs (snd s)) (filepath_Join (RepoDir m) (relPathOf p))"
      by (auto split: if_splits)
    from entry_Continue_dirs [OF e] here have same: "dirCount (fst s1) = dirCount (fst s)" by auto
    have "dirsPresentIn m (fs (snd s1)) p es"
    proof (rule dirsPresent_mono(2) [OF _ kids])
      fix q assume "present (fs (snd s)) q"
      from entry_keeps_present [OF this, of m source p "Dir md es"] e
      show "present (fs (snd s1)) q" by simp
    qed
    from 2(1) [OF Continue 2(2) this] same Continue walk_counts_files(2) [where p = p and es = es and s = s1, OF 2(2)]
    show ?thesis
      by (cases "walkNames walkFn p es s1") simp_all
  next
    case (SkipDir s1)
    with 2(2) have "initialSyncEntry m source p (Dir md es) s = SkipDir s1" by simp
    from entry_SkipDir [OF this] SkipDir show ?thesis by simp
  next
    case (Failed e s1)
    then show ?thesis by simp
  qed
next
  case (3 walkFn p s)
  then show ?case by simp
next
  case (4 walkFn p name entry rest s)
  from 4(5) have first: "dirsPresent m (fs (snd s)) (p @ [name]) entry"
    and others: "dirsPresentIn m (fs (snd s)) p rest" by simp_all
  have later: "dirsPresentIn m (fs (snd s1)) p rest"
    if "resultState (walk walkFn (p @ [name]) entry s) = s1" for s1
  proof (rule dirsPresent_mono(2) [OF _ others])
    fix q assume "present (fs (snd s)) q"
    from walk_keeps_present(1) [OF 4(4) this, of "p @ [name]" entry] that
    show "present (fs (snd s1)) q" by simp
  qed
  show ?case
  proof (cases "walk walkFn (p @ [name]) entry s")
    case (Continue s1)
    with 4(1) [OF 4(4) first] have same: "dirCount (fst s1) = dirCount (fst s)" by simp
    from later [of s1] Continue have "dirsPresentIn m (fs (snd s1)) p rest" by simp
    from 4(2) [OF Continue 4(4) this] same Continue show ?thesis
      by (cases "walkNames walkFn p rest s1") simp_all
  next
    case (SkipDir s1)
    with 4(1) [OF 4(4) first] have same: "dirCount (fst s1) = dirCount (fst s)" by simp
    from later [of s1] SkipDir have l: "dirsPresentIn m (fs (snd s1)) p rest" by simp
    show ?thesis
    proof (cases "IsDir entry")
      case True
      from 4(3) [OF SkipDir True 4(4) l] same SkipDir True show ?thesis
        by (cases "walkNames walkFn p rest s1") simp_all
    next
      case False
      with SkipDir show ?thesis by simp
    qed
  next
    case (Failed e s1)
    then show ?thesis by simp
  qed
qed


lemma sync_case_None:
  assumes "(case X of (None, w4) \<Rightarrow> (None, c, w4) | (Some e, w4) \<Rightarrow> (Some (g e), c, w4))
             = (None, cnt, w1)"
  shows "cnt = c \<and> w1 = snd X"
  using assms by (cases X; cases "fst X") auto

lemma InitialSync_success:
  assumes "InitialSync be m source w0 = (None, cnt, w1)"
  obtains root fs0 s1 where
    "source = Some root"
    "\<And>q. present (fs w0) q \<Longrightarrow> present fs0 q"
    "walk (initialSyncEntry m source) [] root (\<lparr>fileCount = 0, dirCount = 0\<rparr>, w0\<lparr>fs := fs0\<rparr>) = Continue s1
       \<or> walk (initialSyncEntry m source) [] root (\<lparr>fileCount = 0, dirCount = 0\<rparr>, w0\<lparr>fs := fs0\<rparr>) = SkipDir s1"
    "cnt = fst s1"
    "fs (beforeSync be m source w0) = fs (snd s1)"
proof -
  from assms obtain fs0 where
    fs0: "(if os_IsNotExist (os_Stat (fs w0) (relSegments (RepoDir m)))
           then os_MkdirAll (umask w0) (fs w0) (relSegments (RepoDir m)) 493
           else Inr (fs w0)) = Inr fs0"
    by (auto simp: InitialSync_def split: sum.splits)
  then have keep: "\<And>q. present (fs w0) q \<Longrightarrow> present fs0 q"
    by (auto split: if_splits dest: MkdirAll_keeps_present)
  obtain r cnta wa where
    walked: "filepath_Walk source (initialSyncEntry m source)
          (\<lparr>fileCount = 0, dirCount = 0\<rparr>, w0\<lparr>fs := fs0\<rparr>) = (r, cnta, wa)"
    by (metis prod_cases3)
  let ?w3 = "print (Info ''Committing changes to repository...'')
               (print (Info (''Synchronized '' @ decimal (fileCount cnta) @ '' files and ''
                               @ decimal (dirCount cnta) @ '' directories'')) wa)"
  from assms have r: "r = None"
    unfolding InitialSync_def fs0 by (simp add: walked split: option.splits)
  from assms have "(case SyncWithRemote be ''Initial sync of configuration files'' ?w3 of
                      (None, w4) \<Rightarrow> (None, cnta, w4)
                    | (Some e, w4) \<Rightarrow> (Some (Wrapped ''failed to sync with remote'' e), cnta, w4))
                   = (None, cnt, w1)"
    unfolding InitialSync_def fs0 by (simp add: walked r Let_def)
  from sync_case_None [OF this]
  have c: "cnt = cnta" and w4: "w1 = snd (SyncWithRemote be ''Initial sync of configuration files'' ?w3)"
    by simp_all
  define s1 where "s1 = (cnta, wa)"
  from walked r have w: "filepath_Walk source (initialSyncEntry m source)
          (\<lparr>fileCount = 0, dirCount = 0\<rparr>, w0\<lparr>fs := fs0\<rparr>) = (None, s1)"
    by (simp add: s1_def)
  from c have cnt: "cnt = fst s1" by (simp add: s1_def)
  have sync: "fs (beforeSync be m source w0) = fs (snd s1)"
    unfolding beforeSync_def InitialSync_def fs0 by (simp add: walked r Let_def s1_def print_def)
  from w obtain root where root: "source = Some root"
    and r: "walk (initialSyncEntry m source) [] root (\<lparr>fileCount = 0, dirCount = 0\<rparr>, w0\<lparr>fs := fs0\<rparr>) = Continue s1
       \<or> walk (initialSyncEntry m source) [] root (\<lparr>fileCount = 0, dirCount = 0\<rparr>, w0\<lparr>fs := fs0\<rparr>) = SkipDir s1"
    by (auto simp: filepath_Walk_def split: option.splits walkResult.splits)
  from that [OF root keep r cnt sync] show ?thesis .
qed


text \<open>
  The count that follows the walk is the number of regular files of the tree that
  the walk reaches.
\<close>

lemma filesBelow_prefix:
  "q \<in> set (filesBelow p n) \<Longrightarrow> take (length p) q = p \<and> length p \<le> length q"
  "q \<in> set (filesBelowIn p es) \<Longrightarrow> take (length p) q = p \<and> length p < length q"
proof (induction p n and p es arbitrary: q and q rule: filesBelow_filesBelowIn.induct)
  case (1 p md c)
  then show ?case by simp
next
  case (2 p md es)
  from 2(2) have "q \<in> set (filesBelowIn p es)" by simp
  from 2(1) [OF this] show ?case by simp
next
  case (3 p)
  then show ?case by simp
next
  case (4 p name entry rest)
  from 4(3) consider "q \<in> set (filesBelow (p @ [name]) entry)" | "q \<in> set (filesBelowIn p rest)"
    by auto
  then show ?case
  proof cases
    case 1
    from 4(1) [OF 1] have t: "take (Suc (length p)) q = p @ [name]" and l: "Suc (length p) \<le> length q"
      by simp_all
    from t have "take (length p) (take (Suc (length p)) q) = take (length p) (p @ [name])" by simp
    then have "take (length p) q = p" by (simp add: min_def)
    with l show ?thesis by simp
  next
    case 2
    from 4(2) [OF 2] show ?thesis .
  qed
qed

lemma scopedFiles_filter:
  "scopedFiles m p n =
     length (filter (\<lambda>q. counted m q \<and> (\<forall>k. length p \<le> k \<and> k < length q \<longrightarrow> entered m (take k q)))
               (filesBelow p n))"
  "scopedFilesIn m p es =
     length (filter (\<lambda>q. counted m q \<and> (\<forall>k. length p < k \<and> k < length q \<longrightarrow> entered m (take k q)))
               (filesBelowIn p es))"
proof (induction m p n and m p es rule: scopedFiles_scopedFilesIn.induct)
  case (1 m p md c)
  show ?case by (auto simp: counted_def)
next
  case (2 m p md es)
  show ?case
  proof (cases "entered m p")
    case True
    have "filter (\<lambda>q. counted m q \<and> (\<forall>k. length p \<le> k \<and> k < length q \<longrightarrow> entered m (take k q)))
            (filesBelowIn p es)
          = filter (\<lambda>q. counted m q \<and> (\<forall>k. length p < k \<and> k < length q \<longrightarrow> entered m (take k q)))
            (filesBelowIn p es)"
    proof (rule filter_cong [OF refl])
      fix q assume "q \<in> set (filesBelowIn p es)"
      from filesBelow_prefix(2) [OF this] have t: "take (length p) q = p" by simp
      have "(\<forall>k. length p \<le> k \<and> k < length q \<longrightarrow> entered m (take k q))
            \<longleftrightarrow> (\<forall>k. length p < k \<and> k < length q \<longrightarrow> entered m (take k q))"
      proof
        assume "\<forall>k. length p \<le> k \<and> k < length q \<longrightarrow> entered m (take k q)"
        then show "\<forall>k. length p < k \<and> k < length q \<longrightarrow> entered m (take k q)" by simp
      next
        assume a: "\<forall>k. length p < k \<and> k < length q \<longrightarrow> entered m (take k q)"
        show "\<forall>k. length p \<le> k \<and> k < length q \<longrightarrow> entered m (take k q)"
        proof (intro allI impI)
          fix k assume k: "length p \<le> k \<and> k < length q"
          show "entered m (take k q)"
          proof (cases "k = length p")
            case True
            with t \<open>entered m p\<close> show ?thesis by simp
          next
            case False
            with k a show ?thesis by simp
          qed
        qed
      qed
      then show "(counted m q \<and> (\<forall>k. length p \<le> k \<and> k < length q \<longrightarrow> entered m (take k q)))
            = (counted m q \<and> (\<forall>k. length p < k \<and> k < length q \<longrightarrow> entered m (take k q)))"
        by simp
    qed
    with True 2 show ?thesis by (simp add: entered_def)
  next
    case False
    have "filter (\<lambda>q. counted m q \<and> (\<forall>k. length p \<le> k \<and> k < length q \<longrightarrow> entered m (take k q)))
            (filesBelowIn p es) = []"
    proof (rule filter_False, rule ballI)
      fix q assume "q \<in> set (filesBelowIn p es)"
      from filesBelow_prefix(2) [OF this] have "take (length p) q = p" "length p < length q" by simp_all
      with False show "\<not> (counted m q \<and> (\<forall>k. length p \<le> k \<and> k < length q \<longrightarrow> entered m (take k q)))"
        by (metis order_refl)
    qed
    with False show ?thesis by (simp add: entered_def)
  qed
next
  case (3 m p)
  show ?case by simp
next
  case (4 m p name entry rest)
  have "(\<lambda>q. counted m q \<and> (\<forall>k. length (p @ [name]) \<le> k \<and> k < length q \<longrightarrow> entered m (take k q)))
        = (\<lambda>q. counted m q \<and> (\<forall>k. length p < k \<and> k < length q \<longrightarrow> entered m (take k q)))"
    by (simp add: Suc_le_eq)
  with 4 show ?case by simp
qed

lemma scopedFiles_reached:
  "scopedFiles m [] root = length (filter (reached m) (filesBelow [] root))"
proof -
  have "(\<lambda>q. counted m q \<and> (\<forall>k. length ([]::path) \<le> k \<and> k < length q \<longrightarrow> entered m (take k q)))
        = reached m"
    by (auto simp: reached_def list_all_iff fun_eq_iff)
  with scopedFiles_filter(1) [of m "[]" root] show ?thesis by simp
qed

text \<open>
  Claim C2, as the code has it. Let a first run of \<^verbatim>\<open>InitialSync\<close> succeed, let
  everything that is present when that run hands over to the backend be present when
  the backend returns, and let a second run on the same source tree, started in the
  world the first run left, succeed as well. Then the second run counts no directory,
  and it counts again every regular file that its walk reaches: as many as the first
  run did, the number of regular files of the tree that are in scope and lie below
  directories in scope only.
\<close>

theorem C2_second_run_counts_no_directory_and_every_reached_file:
  assumes first: "InitialSync be m source w0 = (None, cnt1, w1)"
    and kept: "\<forall>q. present (fs (beforeSync be m source w0)) q \<longrightarrow> present (fs w1) q"
    and second: "InitialSync be m source w1 = (None, cnt2, w2)"
  shows "dirCount cnt2 = 0 \<and> fileCount cnt2 = fileCount cnt1
         \<and> (\<exists>root. source = Some root
                \<and> fileCount cnt2 = length (filter (reached m) (filesBelow [] root)))"
proof -
  let ?fn = "initialSyncEntry m source"
  let ?zero = "\<lparr>fileCount = 0, dirCount = 0\<rparr>"
  from first obtain root fsa sa where
    root: "source = Some root"
    and keep0: "\<And>q. present (fs w0) q \<Longrightarrow> present fsa q"
    and walk1: "walk ?fn [] root (?zero, w0\<lparr>fs := fsa\<rparr>) = Continue sa
                \<or> walk ?fn [] root (?zero, w0\<lparr>fs := fsa\<rparr>) = SkipDir sa"
    and cnt1: "cnt1 = fst sa"
    and sync1: "fs (beforeSync be m source w0) = fs (snd sa)"
    by (rule InitialSync_success) blast
  from second obtain root' fsb sb where
    root': "source = Some root'"
    and keep: "\<And>q. present (fs w1) q \<Longrightarrow> present fsb q"
    and walk2: "walk ?fn [] root' (?zero, w1\<lparr>fs := fsb\<rparr>) = Continue sb
                \<or> walk ?fn [] root' (?zero, w1\<lparr>fs := fsb\<rparr>) = SkipDir sb"
    and cnt2: "cnt2 = fst sb"
    and sync2: "fs (beforeSync be m source w1) = fs (snd sb)"
    by (rule InitialSync_success) blast
  from root root' have same: "root' = root" by simp
  from walk1 walk_counts_files(1) [where m = m and source = source and p = "[]" and n = root
      and s = "(?zero, w0\<lparr>fs := fsa\<rparr>)", OF refl]
  have files1: "fileCount (fst sa) = scopedFiles m [] root" by auto
  from walk2 walk_counts_files(1) [where m = m and source = source and p = "[]" and n = root
      and s = "(?zero, w1\<lparr>fs := fsb\<rparr>)", OF refl]
  have files2: "fileCount (fst sb) = scopedFiles m [] root" unfolding same by auto
  from walk1 walk_leaves_dirs_present(1) [where m = m and source = source and p = "[]" and n = root
      and s = "(?zero, w0\<lparr>fs := fsa\<rparr>)", OF refl]
  have left: "dirsPresent m (fs (snd sa)) [] root" by auto
  have "dirsPresent m fsb [] root"
  proof (rule dirsPresent_mono(1) [OF _ left])
    fix q assume "present (fs (snd sa)) q"
    with sync1 have "present (fs (beforeSync be m source w0)) q" by simp
    with kept have "present (fs w1) q" by blast
    then show "present fsb q" by (rule keep)
  qed
  then have "dirsPresent m (fs (snd (?zero, w1\<lparr>fs := fsb\<rparr>))) [] root" by simp
  from walk_counts_no_dirs(1) [where m = m and source = source and p = "[]" and n = root
         and s = "(?zero, w1\<lparr>fs := fsb\<rparr>)", OF refl this] walk2
  have "dirCount (fst sb) = 0" unfolding same by auto
  with files1 files2 cnt1 cnt2 root show ?thesis by (simp add: scopedFiles_reached)
qed

lemma demo_first_run:
  "InitialSync quietBackend demoManager demoSource demoWorld
     = (None, \<lparr>fileCount = 2, dirCount = 1\<rparr>, afterFirst)"
  by code_simp

lemma demo_before_sync:
  "beforeSync quietBackend demoManager demoSource demoWorld = afterFirst"
  by code_simp

lemma demo_second_run:
  "InitialSync quietBackend demoManager demoSource afterFirst
     = (None, \<lparr>fileCount = 2, dirCount = 0\<rparr>,
        afterFirst\<lparr>console := console afterFirst @
          [FileOperation ''added'' ''i3/config'', FileOperation ''added'' ''notes.txt'',
           Info ''Synchronized 2 files and 0 directories'',
           Info ''Committing changes to repository...'']\<rparr>)"
  by code_simp

lemma demo_reached:
  "filter (reached demoManager) (filesBelow [] (the demoSource)) = [[''i3'', ''config''], [''notes.txt'']]"
  by code_simp

theorem C2_second_run_witness:
  "InitialSync quietBackend demoManager demoSource demoWorld
     = (None, \<lparr>fileCount = 2, dirCount = 1\<rparr>, afterFirst)
   \<and> fs (beforeSync quietBackend demoManager demoSource demoWorld) = fs afterFirst
   \<and> fst (InitialSync quietBackend demoManager demoSource afterFirst) = None
   \<and> fst (snd (InitialSync quietBackend demoManager demoSource afterFirst))
       = \<lparr>fileCount = 2, dirCount = 0\<rparr>
   \<and> dirCount \<lparr>fileCount = 2, dirCount = 0\<rparr> = 0
   \<and> fileCount \<lparr>fileCount = 2, dirCount = 0\<rparr> = fileCount \<lparr>fileCount = 2, dirCount = 1\<rparr>
   \<and> (\<exists>root. demoSource = Some root
          \<and> fileCount \<lparr>fileCount = 2, dirCount = 0\<rparr>
              = length (filter (reached demoManager) (filesBelow [] root)))"
proof -
  have kept: "\<forall>q. present (fs (beforeSync quietBackend demoManager demoSource demoWorld)) q
                \<longrightarrow> present (fs afterFirst) q"
    by (simp add: demo_before_sync)
  from C2_second_run_counts_no_directory_and_every_reached_file
         [OF demo_first_run kept demo_second_run]
  have "dirCount \<lparr>fileCount = 2, dirCount = 0\<rparr> = 0
        \<and> fileCount \<lparr>fileCount = 2, dirCount = 0\<rparr> = fileCount \<lparr>fileCount = 2, dirCount = 1\<rparr>
        \<and> (\<exists>root. demoSource = Some root
              \<and> fileCount \<lparr>fileCount = 2, dirCount = 0\<rparr>
                  = length (filter (reached demoManager) (filesBelow [] root)))" .
  with demo_first_run show ?thesis
    by (simp add: demo_second_run demo_before_sync)
qed

text \<open>
  A regular file in scope below a directory out of scope is not reached: with the
  single include matcher for \<^verbatim>\<open>i3/config\<close> the directory \<^verbatim>\<open>i3\<close> is skipped, and
  a run counts nothing.
\<close>

lemma demo_unreached_file:
  "shouldInclude pickyManager ''i3/config''
   \<and> \<not> shouldInclude pickyManager ''i3''
   \<and> filter (reached pickyManager) (filesBelow [] (the demoSource)) = []
   \<and> InitialSync quietBackend pickyManager demoSource demoWorld
       = (None, \<lparr>fileCount = 0, dirCount = 0\<rparr>,
          demoWorld\<lparr>console := [Info ''Synchronized 0 files and 0 directories'',
                                 Info ''Committing changes to repository...'']\<rparr>)"
  by code_simp

text \<open>
  The claim as stated fails on a source tree with the directory \<^verbatim>\<open>i3\<close>, the file
  \<^verbatim>\<open>i3/config\<close> and the file \<^verbatim>\<open>notes.txt\<close>: the second run, started in the world
  the first run left, copies both files again, prints both as added, and counts two
  files.
\<close>

theorem C2_second_run_reports_files_counterexample:
  "InitialSync quietBackend demoManager demoSource demoWorld
     = (None, \<lparr>fileCount = 2, dirCount = 1\<rparr>, afterFirst)
   \<and> InitialSync quietBackend demoManager demoSource afterFirst
     = (None, \<lparr>fileCount = 2, dirCount = 0\<rparr>,
        afterFirst\<lparr>console := console afterFirst @
          [FileOperation ''added'' ''i3/config'', FileOperation ''added'' ''notes.txt'',
           Info ''Synchronized 2 files and 0 directories'',
           Info ''Committing changes to repository...'']\<rparr>)
   \<and> fileCount \<lparr>fileCount = 2, dirCount = 0\<rparr> \<noteq> 0"
  by (simp add: demo_first_run demo_second_run)

text \<open>
  Claim C3. For a changed path that is a directory in the source tree,
  \<^verbatim>\<open>syncChangedFiles\<close> never records anything: it asks whether the mirror directory
  exists after \<^verbatim>\<open>os.MkdirAll\<close> has made sure that it does. So the two maps are
  unchanged, whether the mirror directory was there before or not.
\<close>

theorem C3_directory_is_never_classified:
  assumes "statOpt source (relSegments relPath) = Inr info" and "IsDir info"
  shows "fst (syncChangedFile m source relPath (log, w)) = log"
  using assms
  by (auto simp: syncChangedFile_def Let_def MkdirAll_present [unfolded present_def]
      split: sum.splits)

lemma demo_sync_i3:
  "syncChangedFile demoManager demoSource ''i3'' (\<lparr>fileChanges = [], fileChangeSummary = []\<rparr>, demoWorld)
     = (\<lparr>fileChanges = [], fileChangeSummary = []\<rparr>,
        demoWorld\<lparr>fs := Dir 493 [(''repo'', Dir 493 [(''i3'', Dir 493 [])])]\<rparr>)"
  by code_simp

theorem C3_new_directory_witness:
  "statOpt demoSource (relSegments ''i3'') = Inr (Dir 493 [(''config'', File 420 ''bar'')])
   \<and> IsDir (Dir 493 [(''config'', File 420 ''bar'')])
   \<and> os_Stat (fs demoWorld) (filepath_Join (RepoDir demoManager) ''i3'') = Inl ENOENT
   \<and> syncChangedFile demoManager demoSource ''i3''
         (\<lparr>fileChanges = [], fileChangeSummary = []\<rparr>, demoWorld)
       = (\<lparr>fileChanges = [], fileChangeSummary = []\<rparr>,
          demoWorld\<lparr>fs := Dir 493 [(''repo'', Dir 493 [(''i3'', Dir 493 [])])]\<rparr>)"
proof -
  have src: "statOpt demoSource (relSegments ''i3'') = Inr (Dir 493 [(''config'', File 420 ''bar'')])"
    by code_simp
  have dir: "IsDir (Dir 493 [(''config'', File 420 ''bar'')])" by simp
  have missing: "os_Stat (fs demoWorld) (filepath_Join (RepoDir demoManager) ''i3'') = Inl ENOENT"
    by code_simp
  from C3_directory_is_never_classified [OF src dir, of demoManager
         "\<lparr>fileChanges = [], fileChangeSummary = []\<rparr>" demoWorld]
    src dir missing demo_sync_i3
  show ?thesis by simp
qed

section \<open>Verification of the commit message\<close>

text \<open>
  When no path contains a comma followed by a space, splitting the joined string gives
  the paths back, and \<^verbatim>\<open>buildCommitMessage\<close> builds the message of the
  specification.
\<close>

lemma Split_no_separator:
  "sep \<noteq> [] \<Longrightarrow> \<not> sublist sep s \<Longrightarrow> strings_Split s sep = [s]"
proof (induction s)
  case Nil
  then show ?case by (subst strings_Split.simps) simp
next
  case (Cons c cs)
  from Cons.prems have np: "\<not> prefix sep (c # cs)" and ns: "\<not> sublist sep cs"
    by (auto simp: sublist_Cons_right)
  from Cons.IH [OF Cons.prems(1) ns] np Cons.prems(1) show ?case
    by (subst strings_Split.simps) simp
qed

lemma Split_comma_append:
  "\<not> sublist '', '' p \<Longrightarrow> strings_Split (p @ '', '' @ t) '', '' = p # strings_Split t '', ''"
proof (induction p)
  case Nil
  show ?case by (subst strings_Split.simps) simp
next
  case (Cons c cs)
  from Cons.prems have ns: "\<not> sublist '', '' cs" and np: "\<not> prefix '', '' (c # cs)"
    by (auto simp: sublist_Cons_right)
  have "\<not> prefix '', '' (c # cs @ '', '' @ t)"
    using np by (cases cs) (auto simp: prefix_Cons)
  with Cons.IH [OF ns] show ?case
    by (subst strings_Split.simps) simp
qed

lemma Split_Join:
  "paths \<noteq> [] \<Longrightarrow> \<forall>p \<in> set paths. \<not> sublist '', '' p
     \<Longrightarrow> strings_Split (strings_Join paths '', '') '', '' = paths"
proof (induction paths rule: induct_list012)
  case 1
  then show ?case by simp
next
  case (2 x)
  then show ?case by (simp add: Split_no_separator)
next
  case (3 x y rest)
  then show ?case using Split_comma_append [of x "strings_Join (y # rest) '', ''"] by simp
qed

lemma summaryString_Join:
  "paths \<noteq> [] \<Longrightarrow> summaryString paths = strings_Join paths '', '' @ '', ''"
  by (induction paths rule: induct_list012) (simp_all add: summaryString_def)

lemma TrimSuffix_summary:
  "paths \<noteq> [] \<Longrightarrow> strings_TrimSuffix (summaryString paths) '', '' = strings_Join paths '', ''"
  by (simp add: summaryString_Join strings_TrimSuffix_def suffix_def)

lemma commitParts_refines:
  "\<forall>g \<in> set groups. \<forall>p \<in> set (snd g). \<not> sublist '', '' p \<Longrightarrow>
     commitParts (map (\<lambda>g. (fst g, summaryString (snd g))) groups)
       = map (\<lambda>g. fst g @ '': '' @ spec_listed (snd g)) (filter (\<lambda>g. snd g \<noteq> []) groups)"
proof (induction groups)
  case Nil
  then show ?case by simp
next
  case (Cons g groups)
  show ?case
  proof (cases "snd g = []")
    case True
    with Cons show ?thesis by (simp add: summaryString_def)
  next
    case False
    then have ne: "summaryString (snd g) \<noteq> []" by (simp add: summaryString_Join)
    from Cons.prems False have sp: "strings_Split (strings_Join (snd g) '', '') '', '' = snd g"
      by (intro Split_Join) auto
    from Cons False ne sp show ?thesis
      by (simp add: TrimSuffix_summary spec_listed_def Let_def)
  qed
qed

lemma buildCommitMessage_refines:
  assumes "\<forall>g \<in> set groups. \<forall>p \<in> set (snd g). \<not> sublist '', '' p"
  shows "buildCommitMessage (map (\<lambda>g. (fst g, summaryString (snd g))) groups) totalChanges
           = spec_commitMessage groups totalChanges"
  unfolding buildCommitMessage_def spec_commitMessage_def commitParts_refines [OF assms]
  by (auto simp: Let_def filter_empty_conv)

text \<open>
  Claim C8. Two new files named \<^verbatim>\<open>a, b, c\<close> and \<^verbatim>\<open>d, e\<close> are one kind of change
  with two paths. \<^verbatim>\<open>syncChangedFiles\<close> hands \<^verbatim>\<open>buildCommitMessage\<close> the string in
  which each path is followed by a comma and a space, and \<^verbatim>\<open>buildCommitMessage\<close>
  splits that string at every comma followed by a space: it finds five pieces, lists
  three of them and adds "and 2 more".
\<close>

theorem C8_paths_with_comma_are_miscounted:
  "fileChanges (fst (syncChangedFiles quietBackend demoManager commaSource
                       [''a, b, c'', ''d, e''] demoWorld))
     = [(''added'', [''a, b, c'', ''d, e''])]
   \<and> fileChangeSummary (fst (syncChangedFiles quietBackend demoManager commaSource
                               [''a, b, c'', ''d, e''] demoWorld))
     = [(''added'', ''a, b, c, d, e, '')]
   \<and> buildCommitMessage [(''added'', ''a, b, c, d, e, '')] 2
     = ''Configuration update: added: a, b, c and 2 more''"
  by code_simp

end
